theory Spec2Isabelle
  imports Complex_Main
begin

section \<open>Tables\<close>

text \<open>
  The pipeline of \<^verbatim>\<open>etl_pipeline.py\<close> passes pandas frames between its stages. A frame
  is modelled as a header (the column labels in column order, each with the dtype pandas
  keeps for the column) and the rows in index order, each row holding one cell per
  column. Only what \<^verbatim>\<open>select_dtypes\<close> distinguishes is kept of a dtype: the numeric
  dtypes (\<^verbatim>\<open>np.number\<close>), \<^verbatim>\<open>object\<close> (text), \<^verbatim>\<open>datetime64\<close> and the categorical dtype
  that \<^verbatim>\<open>pd.cut\<close> produces.

  A cell is the missing marker \<open>NA\<close> (NaN, None and NaT alike), a number, a text or a
  timestamp. A number is the real that a finite binary64 value stands for (infinite
  values in the data are left out). A text is the list of the bytes of its UTF-8
  encoding, so that two texts are equal exactly when their lists are, and an ASCII text
  is the list of its characters. Timestamps are microseconds since the epoch.
\<close>

datatype cell = NA | Num real | Str string | Time int

datatype dtype = Numeric | Object | Datetime | Category

record dataframe =
  columns :: "(string \<times> dtype) list"
  rows :: "cell list list"

fun cell_fits :: "dtype \<Rightarrow> cell \<Rightarrow> bool" where
  "cell_fits t NA = True"
| "cell_fits Numeric (Num x) = True"
| "cell_fits Object (Str s) = True"
| "cell_fits Datetime (Time u) = True"
| "cell_fits Category (Str s) = True"
| "cell_fits t c = False"

text \<open>
  A well-formed frame: the labels are distinct, every row has one cell per column, a cell
  holds what its column's dtype allows, and a frame without columns has no rows (the row
  index of pandas is not modelled on its own).
\<close>

definition wf_df :: "dataframe \<Rightarrow> bool" where
  "wf_df df \<longleftrightarrow>
     distinct (map fst (columns df)) \<and>
     (\<forall>r \<in> set (rows df). list_all2 (\<lambda>ct c. cell_fits (snd ct) c) (columns df) r) \<and>
     (columns df = [] \<longrightarrow> rows df = [])"

definition nrows :: "dataframe \<Rightarrow> nat" where
  "nrows df = length (rows df)"

definition rectangular :: "dataframe \<Rightarrow> bool" where
  "rectangular df \<longleftrightarrow> (\<forall>r \<in> set (rows df). length r = length (columns df))"

text \<open>
  A column label stands for its position in the header (labels are distinct in a
  well-formed frame). \<open>series df i\<close> is \<^verbatim>\<open>df[col]\<close> for the column at position \<open>i\<close>,
  \<open>boolean_index keep df\<close> is \<^verbatim>\<open>df[mask]\<close>, and \<open>select_dtypes t df\<close> lists the
  positions of the columns of dtype \<open>t\<close> in column order.
\<close>

definition series :: "dataframe \<Rightarrow> nat \<Rightarrow> cell list" where
  "series df i = map (\<lambda>r. r ! i) (rows df)"

definition boolean_index :: "bool list \<Rightarrow> dataframe \<Rightarrow> dataframe" where
  "boolean_index keep df = df\<lparr>rows := map fst (filter snd (zip (rows df) keep))\<rparr>"

definition select_dtypes :: "dtype \<Rightarrow> dataframe \<Rightarrow> nat list" where
  "select_dtypes t df = filter (\<lambda>i. snd (columns df ! i) = t) [0..<length (columns df)]"


section \<open>The machine and the libraries\<close>

text \<open>
  Two things that the program relies on are taken as given rather than fixed, so that
  what is proved below holds whatever they are.

  The first is binary64 arithmetic. The result of a computation in binary64 is a finite
  number, an infinity or NaN. An arithmetic operation on finite numbers is the exact
  operation followed by the rounding of the machine, which yields a finite number or,
  on overflow, an infinity; \<open>rounding\<close> is that rounding. \<^verbatim>\<open>Series.quantile\<close> of pandas
  interpolates in binary64, in an order of operations that belongs to the library;
  \<open>quantile_of P vs q\<close> is what it returns for the column \<open>vs\<close>.

  The second is the text of Python. \<^verbatim>\<open>str.strip\<close> and \<^verbatim>\<open>str.title\<close> work by the
  Unicode character tables; \<open>str_strip\<close> and \<open>str_title\<close> are these two functions.
\<close>

datatype binary64 = Finite real | PlusInf | MinusInf | NaN

record platform =
  rounding :: "real \<Rightarrow> binary64"
  quantile_of :: "cell list \<Rightarrow> real \<Rightarrow> binary64"
  str_strip :: "string \<Rightarrow> string"
  str_title :: "string \<Rightarrow> string"

text \<open>
  Addition, negation, subtraction, multiplication and comparison in binary64: an
  operation on NaN is NaN, as are the difference of two equal infinities and the product
  of an infinity and zero; a comparison with NaN is false.
\<close>

fun fadd :: "platform \<Rightarrow> binary64 \<Rightarrow> binary64 \<Rightarrow> binary64" where
  "fadd P (Finite x) (Finite y) = rounding P (x + y)"
| "fadd P NaN b = NaN"
| "fadd P a NaN = NaN"
| "fadd P PlusInf MinusInf = NaN"
| "fadd P MinusInf PlusInf = NaN"
| "fadd P PlusInf b = PlusInf"
| "fadd P a PlusInf = PlusInf"
| "fadd P MinusInf b = MinusInf"
| "fadd P a MinusInf = MinusInf"

fun fneg :: "binary64 \<Rightarrow> binary64" where
  "fneg (Finite x) = Finite (- x)"
| "fneg PlusInf = MinusInf"
| "fneg MinusInf = PlusInf"
| "fneg NaN = NaN"

definition fsub :: "platform \<Rightarrow> binary64 \<Rightarrow> binary64 \<Rightarrow> binary64" where
  "fsub P a b = fadd P a (fneg b)"

fun fmul :: "platform \<Rightarrow> binary64 \<Rightarrow> binary64 \<Rightarrow> binary64" where
  "fmul P (Finite x) (Finite y) = rounding P (x * y)"
| "fmul P NaN b = NaN"
| "fmul P a NaN = NaN"
| "fmul P (Finite x) b =
     (if x = 0 then NaN else if (0 < x) = (b = PlusInf) then PlusInf else MinusInf)"
| "fmul P a (Finite y) =
     (if y = 0 then NaN else if (0 < y) = (a = PlusInf) then PlusInf else MinusInf)"
| "fmul P a b = (if a = b then PlusInf else MinusInf)"

fun fle :: "binary64 \<Rightarrow> binary64 \<Rightarrow> bool" where
  "fle (Finite x) (Finite y) \<longleftrightarrow> x \<le> y"
| "fle NaN b \<longleftrightarrow> False"
| "fle a NaN \<longleftrightarrow> False"
| "fle MinusInf b \<longleftrightarrow> True"
| "fle a PlusInf \<longleftrightarrow> True"
| "fle a b \<longleftrightarrow> False"

text \<open>A cell as the binary64 value that a comparison of its column sees.\<close>

fun as_float :: "cell \<Rightarrow> binary64" where
  "as_float (Num x) = Finite x"
| "as_float c = NaN"

section \<open>Cleaning\<close>

subsection \<open>Duplicates\<close>

text \<open>
  \<^verbatim>\<open>df.drop_duplicates()\<close> returns a new frame: pandas flags a row when an earlier row
  has the same value in every column (missing markers compare equal there) and keeps the
  rows that are not flagged. A frame with no column or no row is returned as it is.
\<close>

definition duplicated :: "cell list list \<Rightarrow> bool list" where
  "duplicated rs = map (\<lambda>i. rs ! i \<in> set (take i rs)) [0..<length rs]"

definition df_empty :: "dataframe \<Rightarrow> bool" where
  "df_empty df \<longleftrightarrow> columns df = [] \<or> rows df = []"

definition drop_duplicates :: "dataframe \<Rightarrow> dataframe" where
  "drop_duplicates df =
     (if df_empty df then df
      else boolean_index (map Not (duplicated (rows df))) df)"

subsection \<open>Missing values\<close>

text \<open>
  Statistics skip missing markers. The median of an even number of values is the mean of
  the two middle ones, taken exactly; the median of no value is NaN, which is \<open>None\<close>
  here.
\<close>

fun the_num :: "cell \<Rightarrow> real option" where
  "the_num (Num x) = Some x"
| "the_num c = None"

definition present :: "cell list \<Rightarrow> real list" where
  "present cs = List.map_filter the_num cs"

definition median :: "cell list \<Rightarrow> real option" where
  "median cs =
     (let s = sort (present cs); n = length s in
      if n = 0 then None
      else if odd n then Some (s ! (n div 2))
      else Some ((s ! (n div 2 - 1) + s ! (n div 2)) / 2))"

text \<open>
  \<^verbatim>\<open>df[cols] = df[cols].fillna(df[cols].median())\<close> replaces, in each listed column, a
  missing marker by the column's median when there is one; filling with NaN leaves the
  marker. \<^verbatim>\<open>df[cols] = df[cols].fillna('Unknown')\<close> replaces every missing marker of the
  listed columns.
\<close>

definition fillna_median :: "nat list \<Rightarrow> dataframe \<Rightarrow> dataframe" where
  "fillna_median cols df =
     df\<lparr>rows := map (\<lambda>r. map (\<lambda>i.
        if i \<in> set cols \<and> r ! i = NA
        then (case median (series df i) of Some m \<Rightarrow> Num m | None \<Rightarrow> NA)
        else r ! i) [0..<length r]) (rows df)\<rparr>"

definition fillna_value :: "nat list \<Rightarrow> cell \<Rightarrow> dataframe \<Rightarrow> dataframe" where
  "fillna_value cols v df =
     df\<lparr>rows := map (\<lambda>r. map (\<lambda>i.
        if i \<in> set cols \<and> r ! i = NA then v else r ! i) [0..<length r]) (rows df)\<rparr>"

subsection \<open>Outliers\<close>

text \<open>
  One turn of the loop over \<^verbatim>\<open>numeric_columns\<close>, and the loop. The two quantiles come
  from the library; the three lines that follow them are binary64 arithmetic, and the
  mask compares the column with the two bounds.
\<close>

definition outlier_pass :: "platform \<Rightarrow> nat \<Rightarrow> dataframe \<Rightarrow> dataframe" where
  "outlier_pass P col df =
     (let Q1 = quantile_of P (series df col) 0.25;
          Q3 = quantile_of P (series df col) 0.75;
          IQR = fsub P Q3 Q1;
          lower_bound = fsub P Q1 (fmul P (Finite 1.5) IQR);
          upper_bound = fadd P Q3 (fmul P (Finite 1.5) IQR)
      in boolean_index
           (map (\<lambda>v. fle lower_bound (as_float v) \<and> fle (as_float v) upper_bound)
              (series df col))
           df)"

definition remove_outliers :: "platform \<Rightarrow> nat list \<Rightarrow> dataframe \<Rightarrow> dataframe" where
  "remove_outliers P cols df = fold (outlier_pass P) cols df"

subsection \<open>The cleaning stage\<close>

text \<open>
  \<^verbatim>\<open>DataTransformer.clean_data\<close>. No statement of its body raises on a frame of this
  model, so the function returns a frame; its logging is left out. \<open>impute\<close> is the
  middle of the body, the two \<^verbatim>\<open>fillna\<close> assignments.
\<close>

definition impute :: "dataframe \<Rightarrow> dataframe" where
  "impute df =
     (let numeric_columns = select_dtypes Numeric df;
          df = fillna_median numeric_columns df;
          categorical_columns = select_dtypes Object df;
          df = fillna_value categorical_columns (Str ''Unknown'') df
      in df)"

definition clean_data :: "platform \<Rightarrow> dataframe \<Rightarrow> dataframe" where
  "clean_data P df =
     (let df = drop_duplicates df;
          numeric_columns = select_dtypes Numeric df;
          df = impute df;
          df = remove_outliers P numeric_columns df
      in df)"

section \<open>Enrichment\<close>

subsection \<open>Binning\<close>

text \<open>
  \<^verbatim>\<open>pd.cut(df['price'], bins=[0, 50, 200, 500, float('inf')], labels=[...])\<close> with the
  defaults \<^verbatim>\<open>right=True\<close> and \<^verbatim>\<open>include_lowest=False\<close>: pandas computes
  \<^verbatim>\<open>ids = bins.searchsorted(x, side='left')\<close>, the number of edges strictly below \<open>x\<close>;
  a value with \<open>ids = 0\<close> or \<open>ids = len(bins)\<close>, or a missing value, has no category, any
  other value has the label \<open>ids - 1\<close>.
\<close>

datatype edge = Edge real | PosInf

fun edge_less :: "edge \<Rightarrow> real \<Rightarrow> bool" where
  "edge_less (Edge b) x \<longleftrightarrow> b < x"
| "edge_less PosInf x \<longleftrightarrow> False"

definition price_bins :: "edge list" where
  "price_bins = [Edge 0, Edge 50, Edge 200, Edge 500, PosInf]"

definition price_labels :: "string list" where
  "price_labels = [''Low'', ''Medium'', ''High'', ''Premium'']"

definition searchsorted_left :: "edge list \<Rightarrow> real \<Rightarrow> nat" where
  "searchsorted_left bins x = length (takeWhile (\<lambda>b. edge_less b x) bins)"

definition cut_value :: "edge list \<Rightarrow> string list \<Rightarrow> cell \<Rightarrow> cell" where
  "cut_value bins labels v =
     (case v of
        Num x \<Rightarrow>
          (let ids = searchsorted_left bins x in
           if ids = 0 \<or> ids = length bins then NA else Str (labels ! (ids - 1)))
      | _ \<Rightarrow> NA)"

text \<open>The exceptions of Python that the model meets, each with its message.\<close>

datatype exn =
    Exception string
  | TypeError string
  | AttributeError string
  | UnicodeDecodeError string
  | OSError string

fun str_of_exn :: "exn \<Rightarrow> string" where
  "str_of_exn (Exception m) = m"
| "str_of_exn (TypeError m) = m"
| "str_of_exn (AttributeError m) = m"
| "str_of_exn (UnicodeDecodeError m) = m"
| "str_of_exn (OSError m) = m"

text \<open>
  The binning is modelled on numeric columns; on a column of another dtype the call is
  taken to raise (the edges cannot be compared with text or timestamps).
\<close>

definition pd_cut :: "dtype \<Rightarrow> cell list \<Rightarrow> edge list \<Rightarrow> string list \<Rightarrow> exn + cell list" where
  "pd_cut t vs bins labels =
     (if t = Numeric then Inr (map (cut_value bins labels) vs)
      else Inl (TypeError ''cut: the values cannot be compared with the bin edges''))"

subsection \<open>Assigning a column\<close>

fun index_of :: "'a \<Rightarrow> 'a list \<Rightarrow> nat option" where
  "index_of x [] = None"
| "index_of x (y # ys) = (if x = y then Some 0 else map_option Suc (index_of x ys))"

text \<open>
  \<^verbatim>\<open>df[label] = values\<close> mutates the frame: a column with that label is replaced where it
  stands (and takes the dtype of the values), a new label is appended as the last column.
\<close>

definition set_series :: "nat \<Rightarrow> dtype \<Rightarrow> cell list \<Rightarrow> dataframe \<Rightarrow> dataframe" where
  "set_series i t vs df =
     \<lparr>columns = (columns df)[i := (fst (columns df ! i), t)],
      rows = map (\<lambda>(r, v). r[i := v]) (zip (rows df) vs)\<rparr>"

definition set_column :: "string \<Rightarrow> dtype \<Rightarrow> cell list \<Rightarrow> dataframe \<Rightarrow> dataframe" where
  "set_column label t vs df =
     (case index_of label (map fst (columns df)) of
        Some i \<Rightarrow> set_series i t vs df
      | None \<Rightarrow>
          \<lparr>columns = columns df @ [(label, t)],
           rows = map (\<lambda>(r, v). r @ [v]) (zip (rows df) vs)\<rparr>)"

text \<open>The position at which \<^verbatim>\<open>df[label] = values\<close> puts the column.\<close>

definition slot_of :: "string \<Rightarrow> dataframe \<Rightarrow> nat" where
  "slot_of label df =
     (case index_of label (map fst (columns df)) of
        Some i \<Rightarrow> i
      | None \<Rightarrow> length (columns df))"

subsection \<open>Text\<close>

text \<open>
  The \<^verbatim>\<open>.str\<close> accessor of a column first checks what the non-missing values are: it
  accepts text, no value at all, and a mixture, and raises on a column of numbers only
  or of timestamps only. Its methods map text and turn every other value into the missing
  marker.
\<close>

definition str_accessor_ok :: "cell list \<Rightarrow> bool" where
  "str_accessor_ok vs =
     (let xs = filter (\<lambda>v. v \<noteq> NA) vs in
      xs = [] \<or>
      \<not> (list_all (\<lambda>v. case v of Num x \<Rightarrow> True | _ \<Rightarrow> False) xs \<or>
         list_all (\<lambda>v. case v of Time u \<Rightarrow> True | _ \<Rightarrow> False) xs))"

definition str_method :: "(string \<Rightarrow> string) \<Rightarrow> cell list \<Rightarrow> exn + cell list" where
  "str_method f vs =
     (if str_accessor_ok vs
      then Inr (map (\<lambda>v. case v of Str s \<Rightarrow> Str (f s) | _ \<Rightarrow> NA) vs)
      else Inl (AttributeError ''Can only use .str accessor with string values!''))"

text \<open>\<^verbatim>\<open>df[col].str.strip().str.title()\<close>.\<close>

definition strip_title :: "platform \<Rightarrow> cell list \<Rightarrow> exn + cell list" where
  "strip_title P vs =
     (case str_method (str_strip P) vs of
        Inl e \<Rightarrow> Inl e
      | Inr stripped \<Rightarrow> str_method (str_title P) stripped)"

text \<open>What stripping and then title-casing make of one cell.\<close>

definition normalize_cell :: "platform \<Rightarrow> cell \<Rightarrow> cell" where
  "normalize_cell P v = (case v of Str s \<Rightarrow> Str (str_title P (str_strip P s)) | _ \<Rightarrow> NA)"

subsection \<open>The enrichment stage\<close>

text \<open>
  \<^verbatim>\<open>DataTransformer.transform_data\<close> works on the frame it is given: every assignment
  \<^verbatim>\<open>df[...] = ...\<close> changes that frame. The model returns the frame as the call leaves
  it, and the exception when a statement raised (the handler logs and re-raises it).
  \<open>now\<close> is the reading of the clock at \<^verbatim>\<open>datetime.now()\<close>.
\<close>

definition add_price_category :: "dataframe \<Rightarrow> exn + dataframe" where
  "add_price_category df =
     (case index_of ''price'' (map fst (columns df)) of
        None \<Rightarrow> Inr df
      | Some p \<Rightarrow>
          (case pd_cut (snd (columns df ! p)) (series df p) price_bins price_labels of
             Inl e \<Rightarrow> Inl e
           | Inr categories \<Rightarrow> Inr (set_column ''price_category'' Category categories df)))"

definition add_processed_at :: "int \<Rightarrow> dataframe \<Rightarrow> dataframe" where
  "add_processed_at now df =
     set_column ''processed_at'' Datetime (replicate (nrows df) (Time now)) df"

fun normalize_text :: "platform \<Rightarrow> nat list \<Rightarrow> dataframe \<Rightarrow> dataframe \<times> exn option" where
  "normalize_text P [] df = (df, None)"
| "normalize_text P (col # cols) df =
     (if fst (columns df ! col) \<notin> set [''processed_at'']
      then (case strip_title P (series df col) of
              Inl e \<Rightarrow> (df, Some e)
            | Inr vs \<Rightarrow> normalize_text P cols (set_series col Object vs df))
      else normalize_text P cols df)"

definition transform_data :: "platform \<Rightarrow> int \<Rightarrow> dataframe \<Rightarrow> dataframe \<times> exn option" where
  "transform_data P now df =
     (case add_price_category df of
        Inl e \<Rightarrow> (df, Some e)
      | Inr df \<Rightarrow>
          (let df = add_processed_at now df;
               text_columns = select_dtypes Object df
           in normalize_text P text_columns df))"

text \<open>The frame after the binning step, when that step does not raise.\<close>

definition binned :: "dataframe \<Rightarrow> dataframe" where
  "binned df =
     (case index_of ''price'' (map fst (columns df)) of
        None \<Rightarrow> df
      | Some p \<Rightarrow>
          set_column ''price_category'' Category
            (map (cut_value price_bins price_labels) (series df p)) df)"

text \<open>
  The frames on which the binning does not raise: a column labelled \<^verbatim>\<open>price\<close>, when
  there is one, is numeric.
\<close>

definition price_ok :: "dataframe \<Rightarrow> bool" where
  "price_ok df =
     (case index_of ''price'' (map fst (columns df)) of
        None \<Rightarrow> True
      | Some p \<Rightarrow> snd (columns df ! p) = Numeric)"

section \<open>The pipeline\<close>

subsection \<open>Collecting\<close>

text \<open>
  \<^verbatim>\<open>run_pipeline\<close> calls each extractor inside its own \<^verbatim>\<open>try\<close>: a frame that arrives is
  appended to \<^verbatim>\<open>extracted_data\<close>, an exception is logged as a warning and dropped. What
  an extractor reads (a file, the mock API's random numbers) is outside the program, so
  the outcome of each call is given. The source calls two extractors, the CSV file and
  then the API; the model runs the same guarded step over a list of outcomes.
\<close>

definition guarded_extract :: "exn + dataframe \<Rightarrow> dataframe list \<Rightarrow> dataframe list" where
  "guarded_extract outcome extracted_data =
     (case outcome of
        Inr data \<Rightarrow> extracted_data @ [data]
      | Inl e \<Rightarrow> extracted_data)"

text \<open>
  \<^verbatim>\<open>pd.concat(frames, ignore_index=True)\<close>: the columns are the union of the frames'
  labels in the order of first appearance, a column keeps its dtype when the frames that
  have it agree on it and is an object column otherwise, and the rows follow each other
  frame by frame, with the missing marker where a frame lacks a column.
\<close>

definition concat_dtype :: "string \<Rightarrow> dataframe list \<Rightarrow> dtype" where
  "concat_dtype label dfs =
     (case List.map_filter (\<lambda>df. map_of (columns df) label) dfs of
        [] \<Rightarrow> Object
      | t # ts \<Rightarrow> if list_all (\<lambda>u. u = t) ts then t else Object)"

definition concat_columns :: "dataframe list \<Rightarrow> (string \<times> dtype) list" where
  "concat_columns dfs =
     map (\<lambda>label. (label, concat_dtype label dfs))
       (rev (remdups (rev (concat (map (\<lambda>df. map fst (columns df)) dfs)))))"

definition reindex_row :: "(string \<times> dtype) list \<Rightarrow> dataframe \<Rightarrow> cell list \<Rightarrow> cell list" where
  "reindex_row cols df r =
     map (\<lambda>ct. case index_of (fst ct) (map fst (columns df)) of
                 Some i \<Rightarrow> r ! i
               | None \<Rightarrow> NA) cols"

definition pd_concat :: "dataframe list \<Rightarrow> dataframe" where
  "pd_concat dfs =
     (let cols = concat_columns dfs in
      \<lparr>columns = cols,
       rows = concat (map (\<lambda>df. map (reindex_row cols df) (rows df)) dfs)\<rparr>)"

text \<open>The frames of the sources that did not fail, in source order.\<close>

definition arrived :: "(exn + dataframe) list \<Rightarrow> dataframe list" where
  "arrived sources =
     List.map_filter (\<lambda>outcome. case outcome of Inr data \<Rightarrow> Some data | Inl e \<Rightarrow> None) sources"

definition NoDataAvailable :: exn where
  "NoDataAvailable = Exception ''No data sources available''"

definition collect :: "(exn + dataframe) list \<Rightarrow> exn + dataframe" where
  "collect sources =
     (let extracted_data = fold guarded_extract sources [] in
      if extracted_data = [] then Inl NoDataAvailable
      else Inr (pd_concat extracted_data))"

subsection \<open>The metrics log\<close>

text \<open>
  The dictionary that \<^verbatim>\<open>run_pipeline\<close> hands to \<^verbatim>\<open>log_metrics\<close>; the key \<^verbatim>\<open>error\<close> is
  present on the failure path only. The two ISO texts are kept as the clock readings they
  print.
\<close>

record metrics =
  execution_time :: real
  rows_processed :: nat
  start_time :: int
  end_time :: int
  status :: string
  error :: "string option"

text \<open>
  What \<^verbatim>\<open>log_metrics\<close> finds at \<^verbatim>\<open>data/output/pipeline_metrics.json\<close>:
  \<^item> no file;
  \<^item> a file on which \<^verbatim>\<open>open\<close> or \<^verbatim>\<open>json.load\<close> raises \<^verbatim>\<open>JSONDecodeError\<close>, \<^verbatim>\<open>IOError\<close>
    or \<^verbatim>\<open>OSError\<close>, the three exceptions that the recorder catches;
  \<^item> a file whose bytes are not text in the encoding that \<^verbatim>\<open>open\<close> uses: \<^verbatim>\<open>json.load\<close>
    raises \<^verbatim>\<open>UnicodeDecodeError\<close> (with the message kept here), which is a \<^verbatim>\<open>ValueError\<close>
    but none of the three;
  \<^item> a file that holds a JSON value other than an array (kept here is the name of the
    Python type that \<^verbatim>\<open>json.load\<close> returns for it: \<^verbatim>\<open>dict\<close>, \<^verbatim>\<open>str\<close>, \<^verbatim>\<open>int\<close>,
    \<^verbatim>\<open>float\<close>, \<^verbatim>\<open>bool\<close> or \<^verbatim>\<open>NoneType\<close>);
  \<^item> a file that holds an array, taken here to be an array of records.
\<close>

datatype metrics_file =
    Absent
  | Unparsable
  | Undecodable string
  | NotArray string
  | Stored "metrics list"

text \<open>What \<^verbatim>\<open>existing_metrics\<close> is bound to when the recorder has read the file.\<close>

datatype json = Array "metrics list" | Other string

definition load_existing :: "metrics_file \<Rightarrow> exn + json" where
  "load_existing f =
     (case f of
        Absent \<Rightarrow> Inr (Array [])
      | Unparsable \<Rightarrow> Inr (Array [])
      | Undecodable message \<Rightarrow> Inl (UnicodeDecodeError message)
      | NotArray type_name \<Rightarrow> Inr (Other type_name)
      | Stored ms \<Rightarrow> Inr (Array ms))"

text \<open>
  \<^verbatim>\<open>existing_metrics.append(metrics)\<close>: a list takes the record, a value of any of the
  other types has no such method.
\<close>

definition no_append :: "string \<Rightarrow> string" where
  "no_append type_name =
     [CHR 0x27] @ type_name @ [CHR 0x27] @ '' object has no attribute '' @
     [CHR 0x27] @ ''append'' @ [CHR 0x27]"

definition append_record :: "json \<Rightarrow> metrics \<Rightarrow> exn + metrics list" where
  "append_record existing_metrics m =
     (case existing_metrics of
        Array ms \<Rightarrow> Inr (ms @ [m])
      | Other type_name \<Rightarrow> Inl (AttributeError (no_append type_name)))"

text \<open>
  \<^verbatim>\<open>log_metrics\<close>: read, append, write. Whether the write fails is decided outside the
  program (the file or its directory may not be writable); a write that fails is taken to
  fail when the file is opened, so that the file stays as it was. An exception of any of
  the three steps leaves the method.
\<close>

definition log_metrics :: "metrics \<Rightarrow> exn option \<Rightarrow> metrics_file \<Rightarrow> (exn + unit) \<times> metrics_file" where
  "log_metrics m write_failure f =
     (case load_existing f of
        Inl e \<Rightarrow> (Inl e, f)
      | Inr existing_metrics \<Rightarrow>
          (case append_record existing_metrics m of
             Inl e \<Rightarrow> (Inl e, f)
           | Inr existing_metrics \<Rightarrow>
               (case write_failure of
                  Some e \<Rightarrow> (Inl e, f)
                | None \<Rightarrow> (Inr (), Stored existing_metrics))))"

subsection \<open>Sinks\<close>

text \<open>
  The three targets hold the frame last written to them. Whether a write fails is decided
  outside the program; a failed write leaves its target as it was. The environment of a
  run gives what is outside the program: the outcome of each extractor, whether each
  write fails (for the metrics file, at the call on the success path and at the call in
  the handler), the readings of the clock, and the machine.
\<close>

record world =
  metrics_log :: metrics_file
  warehouse_db :: "dataframe option"
  processed_csv :: "dataframe option"
  processed_json :: "dataframe option"

record environment =
  csv_source :: "exn + dataframe"
  api_source :: "exn + dataframe"
  db_failure :: "exn option"
  csv_failure :: "exn option"
  json_failure :: "exn option"
  success_log_failure :: "exn option"
  handler_log_failure :: "exn option"
  clock_start :: int
  clock_transform :: int
  clock_end :: int
  clock_retry :: int
  machine :: platform

definition load_to_database :: "dataframe \<Rightarrow> exn option \<Rightarrow> world \<Rightarrow> (exn + unit) \<times> world" where
  "load_to_database df failure w =
     (case failure of
        Some e \<Rightarrow> (Inl e, w)
      | None \<Rightarrow> (Inr (), w\<lparr>warehouse_db := Some df\<rparr>))"

definition load_to_csv :: "dataframe \<Rightarrow> exn option \<Rightarrow> world \<Rightarrow> (exn + unit) \<times> world" where
  "load_to_csv df failure w =
     (case failure of
        Some e \<Rightarrow> (Inl e, w)
      | None \<Rightarrow> (Inr (), w\<lparr>processed_csv := Some df\<rparr>))"

definition load_to_json :: "dataframe \<Rightarrow> exn option \<Rightarrow> world \<Rightarrow> (exn + unit) \<times> world" where
  "load_to_json df failure w =
     (case failure of
        Some e \<Rightarrow> (Inl e, w)
      | None \<Rightarrow> (Inr (), w\<lparr>processed_json := Some df\<rparr>))"

subsection \<open>One run\<close>

text \<open>
  \<open>run_stages\<close> is the body of the \<^verbatim>\<open>try\<close> of \<^verbatim>\<open>run_pipeline\<close> up to the last sink: the
  first statement that raises ends it.
\<close>

definition run_stages :: "environment \<Rightarrow> world \<Rightarrow> (exn + dataframe) \<times> world" where
  "run_stages env w =
     (case collect [csv_source env, api_source env] of
        Inl e \<Rightarrow> (Inl e, w)
      | Inr combined_data \<Rightarrow>
          (let cleaned_data = clean_data (machine env) combined_data in
           case transform_data (machine env) (clock_transform env) cleaned_data of
             (d, Some e) \<Rightarrow> (Inl e, w)
           | (transformed_data, None) \<Rightarrow>
               (case load_to_database transformed_data (db_failure env) w of
                  (Inl e, w) \<Rightarrow> (Inl e, w)
                | (Inr u, w) \<Rightarrow>
                    (case load_to_csv transformed_data (csv_failure env) w of
                       (Inl e, w) \<Rightarrow> (Inl e, w)
                     | (Inr u, w) \<Rightarrow>
                         (case load_to_json transformed_data (json_failure env) w of
                            (Inl e, w) \<Rightarrow> (Inl e, w)
                          | (Inr u, w) \<Rightarrow> (Inr transformed_data, w))))))"

text \<open>
  The \<^verbatim>\<open>except\<close> clause of \<^verbatim>\<open>run_pipeline\<close>: it builds the record of the failure, calls
  the recorder and re-raises; an exception of the recorder leaves the method in place of
  the one being handled. \<open>t1\<close> is the reading of the clock in the clause.
\<close>

definition handle_failure :: "environment \<Rightarrow> int \<Rightarrow> exn \<Rightarrow> world \<Rightarrow> (exn + unit) \<times> world" where
  "handle_failure env t1 e w =
     (let m = \<lparr>execution_time = 0,
               rows_processed = 0,
               start_time = clock_start env,
               end_time = t1,
               status = ''failed'',
               error = Some (str_of_exn e)\<rparr>
      in case log_metrics m (handler_log_failure env) (metrics_log w) of
           (Inl e', f) \<Rightarrow> (Inl e', w\<lparr>metrics_log := f\<rparr>)
         | (Inr u, f) \<Rightarrow> (Inl e, w\<lparr>metrics_log := f\<rparr>))"

text \<open>
  \<^verbatim>\<open>run_pipeline\<close>. The call of the recorder on the success path stands inside the
  \<^verbatim>\<open>try\<close>, so an exception of that call is handled like the failure of a stage; the
  clock is then read once more.
\<close>

definition run_pipeline :: "environment \<Rightarrow> world \<Rightarrow> (exn + unit) \<times> world" where
  "run_pipeline env w =
     (let t0 = clock_start env in
      case run_stages env w of
        (Inr transformed_data, w) \<Rightarrow>
          (let t1 = clock_end env;
               duration = real_of_int (t1 - t0) / 1000000;
               m = \<lparr>execution_time = duration,
                    rows_processed = nrows transformed_data,
                    start_time = t0,
                    end_time = t1,
                    status = ''success'',
                    error = None\<rparr>
           in case log_metrics m (success_log_failure env) (metrics_log w) of
                (Inr u, f) \<Rightarrow> (Inr (), w\<lparr>metrics_log := f\<rparr>)
              | (Inl e, f) \<Rightarrow> handle_failure env (clock_retry env) e (w\<lparr>metrics_log := f\<rparr>))
      | (Inl e, w) \<Rightarrow> handle_failure env (clock_end env) e w)"

section \<open>Frames as objects\<close>

text \<open>
  Python passes a frame by reference. To say which frame a stage changes, the frames live
  in a store, a reference is a position in it, and a new frame is allocated at the end.
  In \<^verbatim>\<open>clean_data\<close>, \<^verbatim>\<open>df = df.drop_duplicates()\<close> and each \<^verbatim>\<open>df = df[mask]\<close> bind the
  name to a new frame, and the two \<^verbatim>\<open>fillna\<close> assignments change the frame that
  \<^verbatim>\<open>drop_duplicates\<close> made. \<^verbatim>\<open>transform_data\<close> never rebinds \<^verbatim>\<open>df\<close>: every assignment
  lands in the frame of the caller, which is also the frame it returns.
\<close>

type_synonym store = "dataframe list"

definition alloc :: "dataframe \<Rightarrow> store \<Rightarrow> nat \<times> store" where
  "alloc d h = (length h, h @ [d])"

definition clean_data_obj :: "platform \<Rightarrow> nat \<Rightarrow> store \<Rightarrow> nat \<times> store" where
  "clean_data_obj P df h =
     (let (df, h) = alloc (drop_duplicates (h ! df)) h;
          numeric_columns = select_dtypes Numeric (h ! df);
          h = h[df := impute (h ! df)]
      in fold (\<lambda>col (df, h). alloc (outlier_pass P col (h ! df)) h) numeric_columns (df, h))"

definition transform_data_obj :: "platform \<Rightarrow> int \<Rightarrow> nat \<Rightarrow> store \<Rightarrow> (exn + nat) \<times> store" where
  "transform_data_obj P now df h =
     (case transform_data P now (h ! df) of
        (d, None) \<Rightarrow> (Inr df, h[df := d])
      | (d, Some e) \<Rightarrow> (Inl e, h[df := d]))"

section \<open>Small numbers and ASCII text\<close>

subsection \<open>Exact arithmetic\<close>

text \<open>
  Binary64 represents every number \<open>x\<close> with \<open>16 * x\<close> an integer and \<open>\<bar>x\<bar> \<le> 4096\<close>, and
  the rounding of a representable number is the number itself. On a column whose numbers
  are integers of magnitude at most 1000 the quantiles at 0.25 and 0.75 are the exact
  linear interpolation between the two neighbouring order statistics, the default of
  pandas: every intermediate result of the library is then a multiple of 1/4 of small
  magnitude. \<open>exact_on_small P\<close> says these two things of a platform.
\<close>

definition linear_quantile :: "cell list \<Rightarrow> real \<Rightarrow> real option" where
  "linear_quantile cs q =
     (let s = sort (present cs); n = length s in
      if n = 0 then None
      else let h = real (n - 1) * q; lo = nat \<lfloor>h\<rfloor>; hi = min (lo + 1) (n - 1)
           in Some (s ! lo + (h - real lo) * (s ! hi - s ! lo)))"

definition to_binary64 :: "real option \<Rightarrow> binary64" where
  "to_binary64 r = (case r of Some x \<Rightarrow> Finite x | None \<Rightarrow> NaN)"

definition small_int :: "real \<Rightarrow> bool" where
  "small_int x \<longleftrightarrow> real_of_int \<lfloor>x\<rfloor> = x \<and> \<bar>x\<bar> \<le> 1000"

definition small_dyadic :: "real \<Rightarrow> bool" where
  "small_dyadic x \<longleftrightarrow> real_of_int \<lfloor>16 * x\<rfloor> = 16 * x \<and> \<bar>x\<bar> \<le> 4096"

definition exact_on_small :: "platform \<Rightarrow> bool" where
  "exact_on_small P \<longleftrightarrow>
     (\<forall>x. small_dyadic x \<longrightarrow> rounding P x = Finite x) \<and>
     (\<forall>vs. list_all small_int (present vs) \<longrightarrow>
        quantile_of P vs 0.25 = to_binary64 (linear_quantile vs 0.25) \<and>
        quantile_of P vs 0.75 = to_binary64 (linear_quantile vs 0.75))"

subsection \<open>ASCII text\<close>

text \<open>
  On ASCII text, \<^verbatim>\<open>str.strip()\<close> removes the leading and the trailing whitespace, and
  \<^verbatim>\<open>str.title()\<close> walks the text once: a character that follows a cased character is
  lowercased, any other character is uppercased (which changes letters only), so every
  maximal run of letters starts with a capital, whatever separates the runs. The
  functions below are these two on ASCII text; \<open>ascii_text P\<close> says that the text
  functions of a platform agree with them there.
\<close>

definition is_ascii :: "string \<Rightarrow> bool" where
  "is_ascii s \<longleftrightarrow> list_all (\<lambda>c. (of_char c :: nat) < 128) s"

definition ascii_lowercase :: string where
  "ascii_lowercase = ''abcdefghijklmnopqrstuvwxyz''"

definition ascii_uppercase :: string where
  "ascii_uppercase = ''ABCDEFGHIJKLMNOPQRSTUVWXYZ''"

definition to_upper :: "char \<Rightarrow> char" where
  "to_upper c = (case map_of (zip ascii_lowercase ascii_uppercase) c of Some u \<Rightarrow> u | None \<Rightarrow> c)"

definition to_lower :: "char \<Rightarrow> char" where
  "to_lower c = (case map_of (zip ascii_uppercase ascii_lowercase) c of Some l \<Rightarrow> l | None \<Rightarrow> c)"

definition is_cased :: "char \<Rightarrow> bool" where
  "is_cased c \<longleftrightarrow> c \<in> set ascii_lowercase \<or> c \<in> set ascii_uppercase"

definition is_space :: "char \<Rightarrow> bool" where
  "is_space c \<longleftrightarrow>
     c \<in> set [CHR 0x09, CHR 0x0A, CHR 0x0B, CHR 0x0C, CHR 0x0D,
              CHR 0x1C, CHR 0x1D, CHR 0x1E, CHR 0x1F, CHR 0x20]"

definition strip :: "string \<Rightarrow> string" where
  "strip s = rev (dropWhile is_space (rev (dropWhile is_space s)))"

fun title_from :: "bool \<Rightarrow> string \<Rightarrow> string" where
  "title_from previous_is_cased [] = []"
| "title_from previous_is_cased (c # cs) =
     (if previous_is_cased then to_lower c else to_upper c) # title_from (is_cased c) cs"

definition title :: "string \<Rightarrow> string" where
  "title s = title_from False s"

definition ascii_text :: "platform \<Rightarrow> bool" where
  "ascii_text P \<longleftrightarrow>
     (\<forall>s. is_ascii s \<longrightarrow> str_strip P s = strip s \<and> str_title P s = title s)"

subsection \<open>The reference platform\<close>

text \<open>
  The platform that computes exactly and handles every text as ASCII text. It is exact on
  small numbers and agrees with Python on ASCII text, like every machine that runs the
  program; the example frames below hold small integers and ASCII text, and they are
  evaluated on it.
\<close>

definition reference_platform :: platform where
  "reference_platform =
     \<lparr>rounding = Finite,
      quantile_of = (\<lambda>vs q. to_binary64 (linear_quantile vs q)),
      str_strip = strip,
      str_title = title\<rparr>"

text \<open>
  \<open>integral_passes cols df\<close>: every outlier pass of the loop over \<open>cols\<close>, started on
  \<open>df\<close>, meets a column of small integers. \<open>integral_columns cols df\<close>: the columns
  \<open>cols\<close> of \<open>df\<close> hold small integers.
\<close>

definition integral_columns :: "nat list \<Rightarrow> dataframe \<Rightarrow> bool" where
  "integral_columns cols df \<longleftrightarrow>
     list_all (\<lambda>col. list_all small_int (present (series df col))) cols"

definition integral_passes :: "nat list \<Rightarrow> dataframe \<Rightarrow> bool" where
  "integral_passes cols df \<longleftrightarrow>
     list_all
       (\<lambda>k. list_all small_int
          (present (series (remove_outliers reference_platform (take k cols) df) (cols ! k))))
       [0..<length cols]"

section \<open>Readings to compare with\<close>

text \<open>
  Three definitions that follow other readings than the code's, each compared with the
  code below: bins that are closed on the left, title-casing per whitespace-separated
  token, and outlier removal with every column's bounds taken from the table it starts
  from. \<open>within_iqr P vs v\<close> says that \<open>v\<close> is a number inside the IQR bounds of the
  values \<open>vs\<close>, the bounds being \<open>Q1 - 1.5 * (Q3 - Q1)\<close> and \<open>Q3 + 1.5 * (Q3 - Q1)\<close> as the
  platform computes them.
\<close>

definition left_closed_category :: "cell \<Rightarrow> cell" where
  "left_closed_category v =
     (case v of
        Num x \<Rightarrow>
          (if x < 0 then NA
           else if x < 50 then Str ''Low''
           else if x < 200 then Str ''Medium''
           else if x < 500 then Str ''High''
           else Str ''Premium'')
      | _ \<Rightarrow> NA)"

fun token_title_from :: "bool \<Rightarrow> string \<Rightarrow> string" where
  "token_title_from inside_token [] = []"
| "token_title_from inside_token (c # cs) =
     (if inside_token then to_lower c else to_upper c) # token_title_from (\<not> is_space c) cs"

definition token_title :: "string \<Rightarrow> string" where
  "token_title s = token_title_from False s"

definition within_iqr :: "platform \<Rightarrow> cell list \<Rightarrow> cell \<Rightarrow> bool" where
  "within_iqr P vs v \<longleftrightarrow>
     fle (fsub P (quantile_of P vs 0.25)
            (fmul P (Finite 1.5) (fsub P (quantile_of P vs 0.75) (quantile_of P vs 0.25))))
         (as_float v) \<and>
     fle (as_float v)
         (fadd P (quantile_of P vs 0.75)
            (fmul P (Finite 1.5) (fsub P (quantile_of P vs 0.75) (quantile_of P vs 0.25))))"


text \<open>
  What is said of the metrics log: the records that a log holds, the files from which the
  recorder gets an array, a call of the recorder that meets such a file and can write,
  and a run whose call of the recorder (of the handler when a stage failed, of the
  success path otherwise) is such a call.
\<close>

definition records :: "metrics_file \<Rightarrow> metrics list" where
  "records f = (case f of Stored ms \<Rightarrow> ms | _ \<Rightarrow> [])"

definition readable :: "metrics_file \<Rightarrow> bool" where
  "readable f \<longleftrightarrow>
     (case f of Undecodable message \<Rightarrow> False | NotArray type_name \<Rightarrow> False | _ \<Rightarrow> True)"

definition recorder_ok :: "exn option \<Rightarrow> metrics_file \<Rightarrow> bool" where
  "recorder_ok write_failure f \<longleftrightarrow> readable f \<and> write_failure = None"

definition recorder_succeeds :: "environment \<Rightarrow> world \<Rightarrow> bool" where
  "recorder_succeeds env w \<longleftrightarrow>
     (case fst (run_stages env w) of
        Inl e \<Rightarrow> recorder_ok (handler_log_failure env) (metrics_log w)
      | Inr t \<Rightarrow> recorder_ok (success_log_failure env) (metrics_log w))"

section \<open>Example frames\<close>


definition first_gone_example :: dataframe where
  "first_gone_example =
     \<lparr>columns = [(''label'', Object), (''x'', Numeric)],
      rows = [[Str ''a'', Num 100], [Str ''b'', Num 1], [Str ''c'', Num 1],
              [Str ''d'', Num 1], [Str ''e'', Num 1], [Str ''a'', Num 100]]\<rparr>"

definition equal_after_example :: dataframe where
  "equal_after_example =
     \<lparr>columns = [(''x'', Numeric), (''y'', Numeric)],
      rows = [[Num 1, Num 5], [Num 1, NA]]\<rparr>"

definition price_example :: dataframe where
  "price_example =
     \<lparr>columns = [(''price'', Numeric), (''name'', Object)],
      rows = [[Num 50, Str ''  john smith  ''], [Num 0, Str ''Unknown''],
              [Num 500, Str ''mary-ann''], [Num (- 5), NA], [Num 600, Str ''b'']]\<rparr>"

definition outlier_example :: dataframe where
  "outlier_example =
     \<lparr>columns = [(''label'', Object), (''x'', Numeric), (''y'', Numeric)],
      rows = [[Str ''a'', Num 1, Num 0], [Str ''b'', Num 1, Num 0], [Str ''c'', Num 1, Num 0],
              [Str ''d'', Num 1, Num 10], [Str ''e'', Num 100, Num 10]]\<rparr>"

definition timestamp_example :: dataframe where
  "timestamp_example =
     \<lparr>columns = [(''x'', Numeric), (''seen'', Datetime)],
      rows = [[Num 1, NA], [Num 1, NA], [Num 1, Time 5]]\<rparr>"


definition names_example :: dataframe where
  "names_example =
     \<lparr>columns = [(''id'', Numeric), (''price'', Numeric), (''name'', Object)],
      rows = [[Num 1, Num 10, Str '' a ''], [Num 1, Num 10, Str '' a ''],
              [Num 2, Num 600, Str ''b'']]\<rparr>"

definition codes_example :: dataframe where
  "codes_example = \<lparr>columns = [(''code'', Object)], rows = [[Num 1], [Num 2]]\<rparr>"

subsection \<open>Example runs\<close>

definition earlier_record :: metrics where
  "earlier_record =
     \<lparr>execution_time = 2, rows_processed = 7, start_time = 0, end_time = 2000000,
      status = ''success'', error = None\<rparr>"

definition empty_world :: world where
  "empty_world =
     \<lparr>metrics_log = Absent, warehouse_db = None, processed_csv = None, processed_json = None\<rparr>"

definition logged_world :: world where
  "logged_world = empty_world\<lparr>metrics_log := Stored [earlier_record]\<rparr>"

definition invalid_start_byte :: string where
  "invalid_start_byte =
     [CHR 0x27] @ ''utf-8'' @ [CHR 0x27] @ '' codec can'' @ [CHR 0x27] @
     ''t decode byte 0xff in position 0: invalid start byte''"

definition undecodable_world :: world where
  "undecodable_world = empty_world\<lparr>metrics_log := Undecodable invalid_start_byte\<rparr>"

definition good_env :: environment where
  "good_env =
     \<lparr>csv_source = Inr names_example,
      api_source = Inl (Exception ''connection refused''),
      db_failure = None, csv_failure = None, json_failure = None,
      success_log_failure = None, handler_log_failure = None,
      clock_start = 1000000, clock_transform = 2000000, clock_end = 3500000,
      clock_retry = 3600000, machine = reference_platform\<rparr>"

definition no_source_env :: environment where
  "no_source_env =
     good_env\<lparr>csv_source := Inl (Exception ''no such file'')\<rparr>"

definition csv_sink_env :: environment where
  "csv_sink_env =
     good_env\<lparr>api_source := Inr price_example, csv_failure := Some (Exception ''disk full'')\<rparr>"




section \<open>Properties of cleaning\<close>



lemma duplicated_nth:
  assumes "i < length rs"
  shows "duplicated rs ! i \<longleftrightarrow> (\<exists>j<i. rs ! j = rs ! i)"
proof -
  have "rs ! i \<in> set (take i rs) \<longleftrightarrow> (\<exists>j<i. rs ! j = rs ! i)"
    using assms by (auto simp: in_set_conv_nth)
  then show ?thesis
    using assms by (simp add: duplicated_def)
qed






lemma drop_duplicates_columns: "columns (drop_duplicates df) = columns df"
  by (simp add: drop_duplicates_def boolean_index_def)


lemma clean_data_steps:
  "clean_data P df =
     remove_outliers P (select_dtypes Numeric df) (impute (drop_duplicates df))"
  by (simp add: clean_data_def Let_def select_dtypes_def drop_duplicates_columns)



section \<open>Properties of outlier removal\<close>

lemma fle_NaN: "\<not> fle a NaN" "\<not> fle NaN b"
  by (cases a; simp) (cases b; simp)


lemma outlier_pass_mask:
  "outlier_pass P col df =
     boolean_index (map (\<lambda>r. within_iqr P (series df col) (r ! col)) (rows df)) df"
  unfolding outlier_pass_def within_iqr_def Let_def
  by (simp add: series_def o_def)


lemma outlier_pass_columns: "columns (outlier_pass P col df) = columns df"
  by (simp add: outlier_pass_def Let_def boolean_index_def)

lemma remove_outliers_snoc:
  "remove_outliers P (cols @ [col]) df = outlier_pass P col (remove_outliers P cols df)"
  by (simp add: remove_outliers_def)

lemma remove_outliers_columns: "columns (remove_outliers P cols df) = columns df"
  by (induction cols arbitrary: df) (simp_all add: remove_outliers_def outlier_pass_columns)


lemma select_dtypes_sorted: "sorted_wrt (<) (select_dtypes t df)"
  by (simp add: select_dtypes_def sorted_wrt_filter)

section \<open>Properties of platforms that are exact on small numbers\<close>


lemma exact_reference: "exact_on_small reference_platform"
  by (simp add: exact_on_small_def reference_platform_def)

lemma small_int_Ints: "small_int x \<longleftrightarrow> x \<in> \<int> \<and> \<bar>x\<bar> \<le> 1000"
  by (auto simp: small_int_def Ints_def)

lemma small_dyadic_Ints: "small_dyadic x \<longleftrightarrow> 16 * x \<in> \<int> \<and> \<bar>x\<bar> \<le> 4096"
  by (auto simp: small_dyadic_def Ints_def)

lemma linear_quantile_None:
  "linear_quantile vs q = None \<longleftrightarrow> present vs = []"
proof -
  have "sort (present vs) = [] \<longleftrightarrow> present vs = []"
    by (metis length_0_conv length_sort)
  then show ?thesis
    by (simp add: linear_quantile_def Let_def)
qed

lemma linear_quantile_quarter:
  assumes ints: "list_all small_int (present vs)"
    and q: "q = 0.25 \<or> q = 0.75"
    and y: "linear_quantile vs q = Some y"
  shows "4 * y \<in> \<int> \<and> \<bar>y\<bar> \<le> 1000"
proof -
  define s where "s = sort (present vs)"
  define n where "n = length s"
  define h where "h = real (n - 1) * q"
  define lo where "lo = nat \<lfloor>h\<rfloor>"
  define hi where "hi = min (lo + 1) (n - 1)"
  have n: "n \<noteq> 0"
    using y unfolding linear_quantile_def Let_def n_def s_def by (auto split: if_splits)
  have yv: "y = s ! lo + (h - real lo) * (s ! hi - s ! lo)"
    using y n unfolding linear_quantile_def Let_def n_def s_def h_def lo_def hi_def
    by (auto split: if_splits)
  have q01: "0 \<le> q" "q \<le> 1"
    using q by auto
  have "4 * q = 1 \<or> 4 * q = 3"
    using q by auto
  then have q4: "4 * q \<in> \<int>"
    by auto
  have h0: "0 \<le> h"
    unfolding h_def using q01 by simp
  have hn: "h \<le> real (n - 1)"
    unfolding h_def using q01 by (simp add: mult_left_le)
  have lo_r: "real lo = real_of_int \<lfloor>h\<rfloor>"
    unfolding lo_def using h0 by simp
  have "\<lfloor>h\<rfloor> \<le> int (n - 1)"
    using hn by (simp add: floor_le_iff)
  then have lo_n: "lo < n"
    unfolding lo_def using n by linarith
  have hi_n: "hi < n"
    unfolding hi_def using n by simp
  have mem: "\<And>k. k < n \<Longrightarrow> s ! k \<in> \<int> \<and> \<bar>s ! k\<bar> \<le> 1000"
  proof -
    fix k assume "k < n"
    then have "s ! k \<in> set (present vs)"
      unfolding n_def s_def by (metis nth_mem set_sort)
    with ints show "s ! k \<in> \<int> \<and> \<bar>s ! k\<bar> \<le> 1000"
      by (simp add: list_all_iff small_int_Ints)
  qed
  define t where "t = h - real lo"
  have t01: "0 \<le> t" "t \<le> 1"
    unfolding t_def lo_r by linarith+
  have "4 * h \<in> \<int>"
  proof -
    have e: "4 * h = real (n - 1) * (4 * q)"
      by (simp add: h_def)
    have "real (n - 1) * (4 * q) \<in> \<int>"
      using q4 Ints_of_nat [of "n - 1"] by (rule_tac Ints_mult)
    then show ?thesis
      by (simp only: e)
  qed
  then have t4: "4 * t \<in> \<int>"
    unfolding t_def by (simp add: algebra_simps Ints_diff Ints_mult)
  have a: "s ! lo \<in> \<int>" "\<bar>s ! lo\<bar> \<le> 1000" and b: "s ! hi \<in> \<int>" "\<bar>s ! hi\<bar> \<le> 1000"
    using mem [OF lo_n] mem [OF hi_n] by auto
  have "4 * y = 4 * s ! lo + (4 * t) * (s ! hi - s ! lo)"
    by (simp add: yv t_def algebra_simps)
  then have i: "4 * y \<in> \<int>"
    using a(1) b(1) t4 by (simp add: Ints_add Ints_mult Ints_diff)
  have yc: "y = (1 - t) * s ! lo + t * s ! hi"
    by (simp add: yv t_def algebra_simps)
  have a': "s ! lo \<le> 1000" "- 1000 \<le> s ! lo" and b': "s ! hi \<le> 1000" "- 1000 \<le> s ! hi"
    using a(2) b(2) by linarith+
  have t1: "0 \<le> 1 - t"
    using t01 by simp
  have "(1 - t) * s ! lo \<le> (1 - t) * 1000" "t * s ! hi \<le> t * 1000"
    "(1 - t) * (- 1000) \<le> (1 - t) * s ! lo" "t * (- 1000) \<le> t * s ! hi"
    using mult_left_mono [OF a'(1) t1] mult_left_mono [OF b'(1) t01(1)]
      mult_left_mono [OF a'(2) t1] mult_left_mono [OF b'(2) t01(1)]
    by simp_all
  then have "\<bar>y\<bar> \<le> 1000"
    unfolding yc by (simp add: algebra_simps abs_le_iff)
  with i show ?thesis
    by simp
qed


lemma rounding_small: "exact_on_small P \<Longrightarrow> small_dyadic x \<Longrightarrow> rounding P x = Finite x"
  by (simp add: exact_on_small_def)

lemma quantile_small:
  assumes "exact_on_small P" and "list_all small_int (present vs)"
  shows "quantile_of P vs 0.25 = to_binary64 (linear_quantile vs 0.25)"
    and "quantile_of P vs 0.75 = to_binary64 (linear_quantile vs 0.75)"
  using assms by (simp_all add: exact_on_small_def)

lemma iqr_bounds_small:
  assumes P: "exact_on_small P"
    and q1: "4 * q1 \<in> \<int>" "\<bar>q1\<bar> \<le> 1000" and q3: "4 * q3 \<in> \<int>" "\<bar>q3\<bar> \<le> 1000"
  shows "fsub P (Finite q1) (fmul P (Finite 1.5) (fsub P (Finite q3) (Finite q1))) =
           Finite (q1 - 1.5 * (q3 - q1))"
    and "fadd P (Finite q3) (fmul P (Finite 1.5) (fsub P (Finite q3) (Finite q1))) =
           Finite (q3 + 1.5 * (q3 - q1))"
proof -
  have i: "\<And>a b. a \<in> \<int> \<Longrightarrow> b \<in> \<int> \<Longrightarrow> (of_int m :: real) * a + of_int n * b \<in> \<int>" for m n
    by (simp add: Ints_add Ints_mult)
  have "16 * (q3 - q1) = of_int 4 * (4 * q3) + of_int (- 4) * (4 * q1)"
    by (simp add: field_simps)
  then have "16 * (q3 - q1) \<in> \<int>"
    using i [OF q3(1) q1(1), of 4 "- 4"] by (simp only:)
  moreover have "\<bar>q3 - q1\<bar> \<le> 4096"
    using q1(2) q3(2) by (simp add: abs_le_iff field_simps)
  ultimately have d: "small_dyadic (q3 - q1)"
    by (simp only: small_dyadic_Ints)
  have "16 * (1.5 * (q3 - q1)) = of_int 6 * (4 * q3) + of_int (- 6) * (4 * q1)"
    by (simp add: field_simps)
  then have "16 * (1.5 * (q3 - q1)) \<in> \<int>"
    using i [OF q3(1) q1(1), of 6 "- 6"] by (simp only:)
  moreover have "\<bar>1.5 * (q3 - q1)\<bar> \<le> 4096"
    using q1(2) q3(2) by (simp add: abs_le_iff field_simps)
  ultimately have e: "small_dyadic (1.5 * (q3 - q1))"
    by (simp only: small_dyadic_Ints)
  have "16 * (q1 - 1.5 * (q3 - q1)) = of_int (- 6) * (4 * q3) + of_int 10 * (4 * q1)"
    by (simp add: field_simps)
  then have "16 * (q1 - 1.5 * (q3 - q1)) \<in> \<int>"
    using i [OF q3(1) q1(1), of "- 6" 10] by (simp only:)
  moreover have "\<bar>q1 - 1.5 * (q3 - q1)\<bar> \<le> 4096"
    using q1(2) q3(2) by (simp add: abs_le_iff field_simps)
  ultimately have l: "small_dyadic (q1 - 1.5 * (q3 - q1))"
    by (simp only: small_dyadic_Ints)
  have "16 * (q3 + 1.5 * (q3 - q1)) = of_int 10 * (4 * q3) + of_int (- 6) * (4 * q1)"
    by (simp add: field_simps)
  then have "16 * (q3 + 1.5 * (q3 - q1)) \<in> \<int>"
    using i [OF q3(1) q1(1), of 10 "- 6"] by (simp only:)
  moreover have "\<bar>q3 + 1.5 * (q3 - q1)\<bar> \<le> 4096"
    using q1(2) q3(2) by (simp add: abs_le_iff field_simps)
  ultimately have u: "small_dyadic (q3 + 1.5 * (q3 - q1))"
    by (simp only: small_dyadic_Ints)
  have s: "fsub P (Finite q3) (Finite q1) = Finite (q3 - q1)"
    using rounding_small [OF P d] by (simp add: fsub_def)
  have m: "fmul P (Finite 1.5) (Finite (q3 - q1)) = Finite (1.5 * (q3 - q1))"
    using rounding_small [OF P e] by simp
  show "fsub P (Finite q1) (fmul P (Finite 1.5) (fsub P (Finite q3) (Finite q1))) =
           Finite (q1 - 1.5 * (q3 - q1))"
    unfolding s m using rounding_small [OF P l] by (simp add: fsub_def)
  show "fadd P (Finite q3) (fmul P (Finite 1.5) (fsub P (Finite q3) (Finite q1))) =
           Finite (q3 + 1.5 * (q3 - q1))"
    unfolding s m using rounding_small [OF P u] by simp
qed

lemma within_iqr_small:
  assumes P: "exact_on_small P" and ints: "list_all small_int (present vs)"
  shows "within_iqr P vs v \<longleftrightarrow>
     (case (linear_quantile vs 0.25, linear_quantile vs 0.75) of
        (Some q1, Some q3) \<Rightarrow>
          fle (Finite (q1 - 1.5 * (q3 - q1))) (as_float v) \<and>
          fle (as_float v) (Finite (q3 + 1.5 * (q3 - q1)))
      | _ \<Rightarrow> False)"
proof (cases "present vs = []")
  case True
  then have "linear_quantile vs 0.25 = None" "linear_quantile vs 0.75 = None"
    by (simp_all add: linear_quantile_None)
  then show ?thesis
    unfolding within_iqr_def quantile_small [OF P ints]
    by (simp add: to_binary64_def fsub_def fle_NaN)
next
  case False
  then obtain q1 q3 where q: "linear_quantile vs 0.25 = Some q1" "linear_quantile vs 0.75 = Some q3"
    using linear_quantile_None [of vs "0.25"] linear_quantile_None [of vs "0.75"] by auto
  have a: "4 * q1 \<in> \<int> \<and> \<bar>q1\<bar> \<le> 1000"
    using linear_quantile_quarter [OF ints _ q(1)] by simp
  have b: "4 * q3 \<in> \<int> \<and> \<bar>q3\<bar> \<le> 1000"
    using linear_quantile_quarter [OF ints _ q(2)] by simp
  show ?thesis
    unfolding within_iqr_def quantile_small [OF P ints] q to_binary64_def
    using iqr_bounds_small [OF P _ _ _ _, of q1 q3] a b by simp
qed

lemma within_iqr_exact:
  assumes "exact_on_small P" and "list_all small_int (present vs)"
  shows "within_iqr P vs v = within_iqr reference_platform vs v"
  using within_iqr_small [OF assms] within_iqr_small [OF exact_reference assms(2)] by simp

lemma outlier_pass_exact:
  assumes "exact_on_small P" and "list_all small_int (present (series df col))"
  shows "outlier_pass P col df = outlier_pass reference_platform col df"
  by (simp add: outlier_pass_mask within_iqr_exact [OF assms])

lemma integral_passes_snoc:
  "integral_passes (cols @ [col]) df \<longleftrightarrow>
     integral_passes cols df \<and>
     list_all small_int (present (series (remove_outliers reference_platform cols df) col))"
  by (auto simp: integral_passes_def list_all_iff nth_append)

lemma remove_outliers_exact:
  assumes "exact_on_small P" and "integral_passes cols df"
  shows "remove_outliers P cols df = remove_outliers reference_platform cols df"
  using assms(2)
proof (induction cols rule: rev_induct)
  case Nil
  show ?case by (simp add: remove_outliers_def)
next
  case (snoc col cols)
  then have ih: "remove_outliers P cols df = remove_outliers reference_platform cols df"
    and c: "list_all small_int (present (series (remove_outliers reference_platform cols df) col))"
    by (simp_all add: integral_passes_snoc)
  show ?case
    unfolding remove_outliers_snoc ih using outlier_pass_exact [OF assms(1) c] .
qed


lemma clean_data_exact:
  assumes "exact_on_small P"
    and "integral_passes (select_dtypes Numeric df) (impute (drop_duplicates df))"
  shows "clean_data P df = clean_data reference_platform df"
  by (simp add: clean_data_steps remove_outliers_exact [OF assms])


lemma example_passes_integral:
  "integral_passes (select_dtypes Numeric outlier_example)
     (impute (drop_duplicates outlier_example))"
  "integral_columns (select_dtypes Numeric outlier_example)
     (impute (drop_duplicates outlier_example))"
  "integral_passes (rev (select_dtypes Numeric outlier_example))
     (impute (drop_duplicates outlier_example))"
  "integral_passes (select_dtypes Numeric first_gone_example)
     (impute (drop_duplicates first_gone_example))"
  "integral_passes (select_dtypes Numeric equal_after_example)
     (impute (drop_duplicates equal_after_example))"
  "integral_passes (select_dtypes Numeric timestamp_example)
     (impute (drop_duplicates timestamp_example))"
  by code_simp+

lemma examples_on_every_machine:
  assumes "exact_on_small P"
  shows "clean_data P outlier_example = clean_data reference_platform outlier_example"
    and "clean_data P first_gone_example = clean_data reference_platform first_gone_example"
    and "clean_data P equal_after_example = clean_data reference_platform equal_after_example"
    and "clean_data P timestamp_example = clean_data reference_platform timestamp_example"
  using assms by (simp_all add: clean_data_exact example_passes_integral)

section \<open>Deduplication\<close>




section \<open>The outlier passes\<close>



section \<open>Properties of imputation\<close>


lemma wf_row_length:
  "wf_df df \<Longrightarrow> r \<in> set (rows df) \<Longrightarrow> length r = length (columns df)"
  unfolding wf_df_def using list_all2_lengthD by fastforce

lemma wf_cell_fits:
  "wf_df df \<Longrightarrow> r \<in> set (rows df) \<Longrightarrow> i < length (columns df) \<Longrightarrow>
   cell_fits (snd (columns df ! i)) (r ! i)"
  unfolding wf_df_def using list_all2_nthD by fastforce

lemma select_dtypes_member:
  "i \<in> set (select_dtypes t df) \<longleftrightarrow> i < length (columns df) \<and> snd (columns df ! i) = t"
  by (auto simp: select_dtypes_def)

lemma select_dtypes_cong:
  "columns df' = columns df \<Longrightarrow> select_dtypes t df' = select_dtypes t df"
  by (simp add: select_dtypes_def)

lemma fillna_median_columns: "columns (fillna_median cols df) = columns df"
  by (simp add: fillna_median_def)

lemma fillna_value_columns: "columns (fillna_value cols v df) = columns df"
  by (simp add: fillna_value_def)

lemma impute_columns: "columns (impute df) = columns df"
  by (simp add: impute_def Let_def fillna_median_columns fillna_value_columns)



lemma fillna_median_row_length:
  "r \<in> set (rows (fillna_median cols df)) \<Longrightarrow> \<exists>r' \<in> set (rows df). length r = length r'"
  by (auto simp: fillna_median_def)




lemma boolean_index_columns: "columns (boolean_index keep df) = columns df"
  by (simp add: boolean_index_def)








lemma impute_row_length:
  assumes "\<forall>r \<in> set (rows df). length r = length (columns df)"
  shows "\<forall>r \<in> set (rows (impute df)). length r = length (columns df)"
  using assms by (auto simp: impute_def Let_def fillna_value_def fillna_median_def)











section \<open>Properties of column assignment and text normalisation\<close>


lemma index_of_Some: "index_of x xs = Some i \<Longrightarrow> i < length xs \<and> xs ! i = x"
  by (induction xs arbitrary: i) (auto split: if_splits)

lemma index_of_None: "index_of x xs = None \<longleftrightarrow> x \<notin> set xs"
  by (induction xs) auto

lemma index_of_distinct: "distinct xs \<Longrightarrow> i < length xs \<Longrightarrow> index_of (xs ! i) xs = Some i"
  by (induction xs arbitrary: i) (auto simp: nth_Cons split: nat.splits)

lemma index_of_append_new: "x \<notin> set xs \<Longrightarrow> index_of x (xs @ [x]) = Some (length xs)"
  by (induction xs) auto

lemma index_of_append_other: "x \<noteq> y \<Longrightarrow> index_of x (xs @ [y]) = index_of x xs"
  by (induction xs) auto

lemma wf_rectangular: "wf_df df \<Longrightarrow> rectangular df"
  using wf_row_length by (auto simp: rectangular_def)

lemma set_series_columns:
  "columns (set_series i t vs df) = (columns df)[i := (fst (columns df ! i), t)]"
  by (simp add: set_series_def)

lemma set_series_labels:
  "map fst (columns (set_series i t vs df)) = map fst (columns df)"
  by (cases "i < length (columns df)")
     (simp_all add: set_series_def map_update list_update_same_conv list_update_beyond)

lemma set_series_nrows:
  "length vs = nrows df \<Longrightarrow> nrows (set_series i t vs df) = nrows df"
  by (simp add: set_series_def nrows_def)

lemma set_series_rectangular:
  "rectangular df \<Longrightarrow> rectangular (set_series i t vs df)"
  by (auto simp: rectangular_def set_series_def dest: set_zip_leftD)

lemma map_zip_fst: "length xs = length ys \<Longrightarrow> map (\<lambda>p. f (fst p)) (zip xs ys) = map f xs"
  by (induction xs ys rule: list_induct2) auto

lemma map_zip_snd: "length xs = length ys \<Longrightarrow> map (\<lambda>p. g (snd p)) (zip xs ys) = map g ys"
  by (induction xs ys rule: list_induct2) auto

lemma set_series_series:
  assumes "rectangular df" and "length vs = nrows df" and "i < length (columns df)"
  shows "series (set_series i t vs df) j = (if j = i then vs else series df j)"
proof -
  have "series (set_series i t vs df) j =
      map (\<lambda>p. if j = i then snd p else fst p ! j) (zip (rows df) vs)"
    using assms(1,3)
    by (auto simp: series_def set_series_def rectangular_def dest: set_zip_leftD)
  also have "\<dots> = (if j = i then vs else series df j)"
    using assms(2) map_zip_fst [of "rows df" vs "\<lambda>r. r ! j"] map_zip_snd [of "rows df" vs "\<lambda>v. v"]
    by (simp add: nrows_def series_def)
  finally show ?thesis .
qed


lemma cell_fits_update:
  assumes "list_all2 (\<lambda>ct c. cell_fits (snd ct) c) cols r" and "cell_fits t v"
  shows "list_all2 (\<lambda>ct c. cell_fits (snd ct) c) (cols[i := (l, t)]) (r[i := v])"
  using assms by (simp add: list_all2_update_cong)

lemma set_series_wf:
  assumes "wf_df df" and "\<forall>v \<in> set vs. cell_fits t v"
  shows "wf_df (set_series i t vs df)"
proof -
  have "list_all2 (\<lambda>ct c. cell_fits (snd ct) c) (columns (set_series i t vs df)) r"
    if "r \<in> set (rows (set_series i t vs df))" for r
  proof -
    from that obtain r0 v where p: "(r0, v) \<in> set (zip (rows df) vs)" and r: "r = r0[i := v]"
      by (auto simp: set_series_def)
    have "list_all2 (\<lambda>ct c. cell_fits (snd ct) c) (columns df) r0"
      using p assms(1) by (auto simp: wf_df_def dest: set_zip_leftD)
    moreover have "cell_fits t v"
      using p assms(2) by (auto dest: set_zip_rightD)
    ultimately show ?thesis
      unfolding r set_series_columns by (rule cell_fits_update)
  qed
  moreover have "distinct (map fst (columns (set_series i t vs df)))"
    using assms(1) by (simp add: set_series_labels wf_df_def)
  moreover have "columns (set_series i t vs df) = [] \<longrightarrow> rows (set_series i t vs df) = []"
    using assms(1) by (auto simp: set_series_def wf_df_def)
  ultimately show ?thesis
    by (simp add: wf_df_def)
qed


lemma slot_of_less: "slot_of label df < length (columns df) \<longleftrightarrow> label \<in> set (map fst (columns df))"
proof (cases "index_of label (map fst (columns df))")
  case None
  then show ?thesis
    using index_of_None [of label "map fst (columns df)"] by (simp add: slot_of_def)
next
  case (Some i)
  then show ?thesis
    using index_of_Some [OF Some] index_of_None [of label "map fst (columns df)"]
    by (simp add: slot_of_def)
qed

lemma slot_of_label:
  "j < length (columns df) \<Longrightarrow> fst (columns df ! j) \<noteq> label \<Longrightarrow> j \<noteq> slot_of label df"
proof (cases "index_of label (map fst (columns df))")
  case None
  assume "j < length (columns df)"
  with None show ?thesis
    by (simp add: slot_of_def)
next
  case (Some i)
  assume "j < length (columns df)" and "fst (columns df ! j) \<noteq> label"
  with index_of_Some [OF Some] Some show ?thesis
    by (auto simp: slot_of_def)
qed

lemma set_column_append:
  assumes "label \<notin> set (map fst (columns df))"
  shows "set_column label t vs df =
    \<lparr>columns = columns df @ [(label, t)], rows = map (\<lambda>(r, v). r @ [v]) (zip (rows df) vs)\<rparr>"
  using assms index_of_None [of label "map fst (columns df)"] by (simp add: set_column_def)

lemma set_column_replace:
  assumes "label \<in> set (map fst (columns df))"
  shows "set_column label t vs df = set_series (slot_of label df) t vs df"
proof -
  from assms obtain i where "index_of label (map fst (columns df)) = Some i"
    using index_of_None [of label "map fst (columns df)"] by (cases "index_of label (map fst (columns df))") auto
  then show ?thesis
    by (simp add: set_column_def slot_of_def)
qed

lemma set_column_nrows:
  "length vs = nrows df \<Longrightarrow> nrows (set_column label t vs df) = nrows df"
  by (cases "label \<in> set (map fst (columns df))")
     (simp_all add: set_column_append set_column_replace set_series_nrows, simp add: nrows_def)

lemma set_column_wf:
  assumes "wf_df df" and "\<forall>v \<in> set vs. cell_fits t v"
  shows "wf_df (set_column label t vs df)"
proof (cases "label \<in> set (map fst (columns df))")
  case True
  then show ?thesis
    using assms by (simp add: set_column_replace set_series_wf)
next
  case False
  have "list_all2 (\<lambda>ct c. cell_fits (snd ct) c) (columns df @ [(label, t)]) r"
    if "r \<in> set (map (\<lambda>(r, v). r @ [v]) (zip (rows df) vs))" for r
  proof -
    from that obtain r0 v where p: "(r0, v) \<in> set (zip (rows df) vs)" and r: "r = r0 @ [v]"
      by auto
    have "list_all2 (\<lambda>ct c. cell_fits (snd ct) c) (columns df) r0"
      using p assms(1) by (auto simp: wf_df_def dest: set_zip_leftD)
    moreover have "cell_fits t v"
      using p assms(2) by (auto dest: set_zip_rightD)
    ultimately show ?thesis
      unfolding r by (simp add: list_all2_appendI)
  qed
  then show ?thesis
    using assms(1) False by (simp add: set_column_append [OF False] wf_df_def)
qed

lemma set_column_slot:
  assumes "wf_df df" and "length vs = nrows df"
  shows "index_of label (map fst (columns (set_column label t vs df))) = Some (slot_of label df)"
    and "columns (set_column label t vs df) ! slot_of label df = (label, t)"
    and "series (set_column label t vs df) (slot_of label df) = vs"
    and "slot_of label df < length (columns (set_column label t vs df))"
proof -
  have all: "index_of label (map fst (columns (set_column label t vs df))) = Some (slot_of label df) \<and>
     columns (set_column label t vs df) ! slot_of label df = (label, t) \<and>
     series (set_column label t vs df) (slot_of label df) = vs \<and>
     slot_of label df < length (columns (set_column label t vs df))"
  proof (cases "label \<in> set (map fst (columns df))")
    case True
    then obtain i where i: "index_of label (map fst (columns df)) = Some i"
      using index_of_None [of label "map fst (columns df)"]
      by (cases "index_of label (map fst (columns df))") auto
    have s: "slot_of label df = i"
      using i by (simp add: slot_of_def)
    have il: "i < length (columns df)" and lab: "fst (columns df ! i) = label"
      using index_of_Some [OF i] by auto
    have l: "index_of label (map fst (columns (set_series i t vs df))) = Some i"
      using i by (simp add: set_series_labels)
    have c: "columns (set_series i t vs df) ! i = (label, t)"
      and n: "i < length (columns (set_series i t vs df))"
      using il lab by (simp_all add: set_series_columns)
    show ?thesis
      using l c n set_series_series [OF wf_rectangular [OF assms(1)] assms(2) il, of t i]
      by (simp add: set_column_replace [OF True] s)
  next
    case False
    have s: "slot_of label df = length (columns df)"
      using False index_of_None [of label "map fst (columns df)"] by (simp add: slot_of_def)
    have "map (\<lambda>r. r ! length (columns df)) (map (\<lambda>(r, v). r @ [v]) (zip (rows df) vs)) =
        map (\<lambda>p. snd p) (zip (rows df) vs)"
      using wf_row_length [OF assms(1)] by (auto simp: nth_append dest!: set_zip_leftD)
    then have "series (set_column label t vs df) (length (columns df)) = vs"
      using assms(2) map_zip_snd [of "rows df" vs "\<lambda>v. v"]
      by (simp add: set_column_append [OF False] series_def nrows_def)
    then show ?thesis
      using False by (simp add: s set_column_append [OF False] index_of_append_new)
  qed
  from all show "index_of label (map fst (columns (set_column label t vs df))) = Some (slot_of label df)"
    and "columns (set_column label t vs df) ! slot_of label df = (label, t)"
    and "series (set_column label t vs df) (slot_of label df) = vs"
    and "slot_of label df < length (columns (set_column label t vs df))"
    by simp_all
qed

lemma set_column_other:
  assumes "wf_df df" and "length vs = nrows df"
    and "j < length (columns df)" and "j \<noteq> slot_of label df"
  shows "columns (set_column label t vs df) ! j = columns df ! j"
    and "series (set_column label t vs df) j = series df j"
proof -
  have "columns (set_column label t vs df) ! j = columns df ! j \<and>
     series (set_column label t vs df) j = series df j"
  proof (cases "label \<in> set (map fst (columns df))")
    case True
    have il: "slot_of label df < length (columns df)"
      using True by (simp add: slot_of_less)
    show ?thesis
      using assms(3,4) set_series_series [OF wf_rectangular [OF assms(1)] assms(2) il, of t j]
      by (simp add: set_column_replace [OF True] set_series_columns)
  next
    case False
    have "map (\<lambda>r. r ! j) (map (\<lambda>(r, v). r @ [v]) (zip (rows df) vs)) =
        map (\<lambda>p. fst p ! j) (zip (rows df) vs)"
      using wf_row_length [OF assms(1)] assms(3) by (auto simp: nth_append dest: set_zip_leftD)
    then have "series (set_column label t vs df) j = series df j"
      using assms(2) map_zip_fst [of "rows df" vs "\<lambda>r. r ! j"]
      by (simp add: set_column_append [OF False] series_def nrows_def)
    then show ?thesis
      using assms(3) by (simp add: set_column_append [OF False] nth_append)
  qed
  then show "columns (set_column label t vs df) ! j = columns df ! j"
    and "series (set_column label t vs df) j = series df j"
    by simp_all
qed

lemma set_column_length:
  "length (columns (set_column label t vs df)) =
     (if label \<in> set (map fst (columns df)) then length (columns df) else length (columns df) + 1)"
  by (cases "label \<in> set (map fst (columns df))")
     (simp_all add: set_column_append set_column_replace set_series_columns)

lemma set_column_index_other:
  assumes "l \<noteq> label"
  shows "index_of l (map fst (columns (set_column label t vs df))) =
         index_of l (map fst (columns df))"
  using assms
  by (cases "label \<in> set (map fst (columns df))")
     (simp_all add: set_column_append set_column_replace set_series_labels index_of_append_other)


lemma cell_fits_Object: "cell_fits Object c \<longleftrightarrow> c = NA \<or> (\<exists>s. c = Str s)"
  by (cases c) simp_all

lemma str_accessor_ok_text:
  assumes "\<forall>v \<in> set vs. cell_fits Object v"
  shows "str_accessor_ok vs"
proof (cases "filter (\<lambda>v. v \<noteq> NA) vs")
  case Nil
  then show ?thesis
    by (simp add: str_accessor_ok_def)
next
  case (Cons x xs)
  then have "x \<in> set (filter (\<lambda>v. v \<noteq> NA) vs)"
    by simp
  then have "x \<in> set vs" and "x \<noteq> NA"
    by simp_all
  with assms obtain s where "x = Str s"
    by (auto simp: cell_fits_Object)
  with Cons show ?thesis
    by (simp add: str_accessor_ok_def)
qed

lemma strip_title_text:
  assumes "\<forall>v \<in> set vs. cell_fits Object v"
  shows "strip_title P vs = Inr (map (normalize_cell P) vs)"
proof -
  let ?f = "\<lambda>v. case v of Str s \<Rightarrow> Str (str_strip P s) | _ \<Rightarrow> NA"
  have 1: "str_method (str_strip P) vs = Inr (map ?f vs)"
    using str_accessor_ok_text [OF assms] by (simp add: str_method_def)
  have "\<forall>v \<in> set (map ?f vs). cell_fits Object v"
    by (auto split: cell.splits)
  then have "str_accessor_ok (map ?f vs)"
    by (rule str_accessor_ok_text)
  then have 2: "str_method (str_title P) (map ?f vs) =
      Inr (map (\<lambda>v. case v of Str s \<Rightarrow> Str (str_title P s) | _ \<Rightarrow> NA) (map ?f vs))"
    by (simp add: str_method_def)
  have "map (\<lambda>v. case v of Str s \<Rightarrow> Str (str_title P s) | _ \<Rightarrow> NA) (map ?f vs) = map (normalize_cell P) vs"
    by (auto simp: normalize_cell_def split: cell.splits)
  with 1 2 show ?thesis
    by (simp add: strip_title_def)
qed

lemma normalize_cell_fits: "cell_fits Object (normalize_cell P v)"
  by (cases v) (simp_all add: normalize_cell_def)

lemma wf_series_fits:
  assumes "wf_df df" and "j < length (columns df)"
  shows "\<forall>v \<in> set (series df j). cell_fits (snd (columns df ! j)) v"
  using wf_cell_fits [OF assms(1) _ assms(2)] by (auto simp: series_def)

lemma series_length: "length (series df j) = nrows df"
  by (simp add: series_def nrows_def)

lemma normalize_text_frame:
  assumes "wf_df df" and "distinct cols" and "set cols \<subseteq> set (select_dtypes Object df)"
  shows "snd (normalize_text P cols df) = None \<and>
     wf_df (fst (normalize_text P cols df)) \<and>
     columns (fst (normalize_text P cols df)) = columns df \<and>
     nrows (fst (normalize_text P cols df)) = nrows df \<and>
     (\<forall>j<length (columns df). series (fst (normalize_text P cols df)) j =
        (if j \<in> set cols \<and> fst (columns df ! j) \<notin> set [''processed_at'']
         then map (normalize_cell P) (series df j) else series df j))"
  using assms
proof (induction cols arbitrary: df)
  case Nil
  then show ?case by simp
next
  case (Cons col cols)
  have col: "col < length (columns df)" "snd (columns df ! col) = Object"
    using Cons.prems(3) by (simp_all add: select_dtypes_member)
  have rest: "distinct cols" "col \<notin> set cols" "set cols \<subseteq> set (select_dtypes Object df)"
    using Cons.prems(2,3) by auto
  show ?case
  proof (cases "fst (columns df ! col) \<notin> set [''processed_at'']")
    case False
    then have eq: "normalize_text P (col # cols) df = normalize_text P cols df"
      by simp
    show ?thesis
      unfolding eq using Cons.IH [OF Cons.prems(1) rest(1,3)] False rest(2) by auto
  next
    case True
    let ?vs = "map (normalize_cell P) (series df col)"
    let ?d = "set_series col Object ?vs df"
    have fits: "\<forall>v \<in> set (series df col). cell_fits Object v"
      using wf_series_fits [OF Cons.prems(1) col(1)] col(2) by simp
    have eq: "normalize_text P (col # cols) df = normalize_text P cols ?d"
      using True strip_title_text [OF fits] by simp
    have wf: "wf_df ?d"
      using Cons.prems(1) by (rule set_series_wf) (simp add: normalize_cell_fits)
    have cols_eq: "columns ?d = columns df"
      using col by (simp add: set_series_columns list_update_same_conv prod_eq_iff)
    have sel: "select_dtypes Object ?d = select_dtypes Object df"
      using cols_eq by (rule select_dtypes_cong)
    have len: "length ?vs = nrows df"
      by (simp add: series_length)
    have ser: "series ?d j = (if j = col then ?vs else series df j)" for j
      using set_series_series [OF wf_rectangular [OF Cons.prems(1)] len col(1)] .
    have nr: "nrows ?d = nrows df"
      using len by (rule set_series_nrows)
    note ih = Cons.IH [OF wf rest(1), unfolded sel cols_eq nr, OF rest(3)]
    show ?thesis
      unfolding eq using ih True rest(2) by (auto simp: ser)
  qed
qed



section \<open>Properties of enrichment\<close>


lemma cut_value_fits: "cell_fits Category (cut_value bins labels v)"
  by (cases v) (simp_all add: cut_value_def Let_def)


lemma add_price_category_ok:
  assumes "price_ok df"
  shows "add_price_category df = Inr (binned df)"
  using assms
  by (auto simp: add_price_category_def binned_def price_ok_def pd_cut_def split: option.splits)

lemma binned_wf:
  assumes "wf_df df"
  shows "wf_df (binned df)"
  using assms by (auto simp: binned_def cut_value_fits intro!: set_column_wf split: option.splits)

lemma binned_nrows: "nrows (binned df) = nrows df"
  by (auto simp: binned_def series_length intro!: set_column_nrows split: option.splits)

lemma add_processed_at_wf:
  assumes "wf_df df"
  shows "wf_df (add_processed_at now df)"
  unfolding add_processed_at_def using assms by (rule set_column_wf) simp

lemma add_processed_at_nrows: "nrows (add_processed_at now df) = nrows df"
  unfolding add_processed_at_def by (rule set_column_nrows) simp

lemma add_processed_at_slot:
  assumes "wf_df df"
  shows "columns (add_processed_at now df) ! slot_of ''processed_at'' df = (''processed_at'', Datetime)"
    and "index_of ''processed_at'' (map fst (columns (add_processed_at now df))) =
           Some (slot_of ''processed_at'' df)"
    and "series (add_processed_at now df) (slot_of ''processed_at'' df) =
           replicate (nrows df) (Time now)"
  unfolding add_processed_at_def
  using set_column_slot [OF assms, of "replicate (nrows df) (Time now)" "''processed_at''" Datetime]
  by simp_all

lemma wf_label_unique:
  assumes "wf_df df" and "i < length (columns df)" and "j < length (columns df)"
    and "fst (columns df ! i) = fst (columns df ! j)"
  shows "i = j"
proof -
  have "distinct (map fst (columns df))"
    using assms(1) by (simp add: wf_df_def)
  moreover have "map fst (columns df) ! i = map fst (columns df) ! j"
    using assms(2,3,4) by simp
  ultimately show ?thesis
    using assms(2,3) nth_eq_iff_index_eq [of "map fst (columns df)" i j] by simp
qed

lemma object_not_processed_at:
  assumes "wf_df df" and "j < length (columns (add_processed_at now df))"
    and "snd (columns (add_processed_at now df) ! j) = Object"
  shows "fst (columns (add_processed_at now df) ! j) \<noteq> ''processed_at''"
proof
  let ?d = "add_processed_at now df"
  let ?q = "slot_of ''processed_at'' df"
  assume l: "fst (columns ?d ! j) = ''processed_at''"
  have q: "?q < length (columns ?d)"
    unfolding add_processed_at_def
    using set_column_slot(4) [OF assms(1), of "replicate (nrows df) (Time now)"] by simp
  have "j = ?q"
    using wf_label_unique [OF add_processed_at_wf [OF assms(1)] assms(2) q]
      l add_processed_at_slot(1) [OF assms(1)] by simp
  with assms(3) add_processed_at_slot(1) [OF assms(1), of now] show False
    by simp
qed

lemma transform_data_frame:
  assumes "wf_df df" and "price_ok df"
  shows "snd (transform_data P now df) = None \<and>
     wf_df (fst (transform_data P now df)) \<and>
     columns (fst (transform_data P now df)) = columns (add_processed_at now (binned df)) \<and>
     nrows (fst (transform_data P now df)) = nrows df \<and>
     (\<forall>j<length (columns (add_processed_at now (binned df))).
        series (fst (transform_data P now df)) j =
          (if snd (columns (add_processed_at now (binned df)) ! j) = Object
           then map (normalize_cell P) (series (add_processed_at now (binned df)) j)
           else series (add_processed_at now (binned df)) j))"
proof -
  let ?d = "add_processed_at now (binned df)"
  have wf: "wf_df ?d"
    using assms(1) by (simp add: binned_wf add_processed_at_wf)
  have td: "transform_data P now df = normalize_text P (select_dtypes Object ?d) ?d"
    by (simp add: transform_data_def add_price_category_ok [OF assms(2)] Let_def)
  have dist: "distinct (select_dtypes Object ?d)"
    using select_dtypes_sorted [of Object ?d] by (simp add: strict_sorted_iff)
  note f = normalize_text_frame [OF wf dist subset_refl]
  have "series (fst (transform_data P now df)) j =
          (if snd (columns ?d ! j) = Object then map (normalize_cell P) (series ?d j) else series ?d j)"
    if j: "j < length (columns ?d)" for j
  proof (cases "snd (columns ?d ! j) = Object")
    case True
    then have "fst (columns ?d ! j) \<noteq> ''processed_at''"
      using object_not_processed_at [OF binned_wf [OF assms(1)] j] by simp
    with True j f show ?thesis
      by (simp add: td select_dtypes_member)
  next
    case False
    with j f show ?thesis
      by (simp add: td select_dtypes_member)
  qed
  then show ?thesis
    using f by (simp add: td add_processed_at_nrows binned_nrows)
qed



lemma binned_other:
  assumes "wf_df df" and "i < length (columns df)"
    and "fst (columns df ! i) = ''price_category'' \<longrightarrow> ''price'' \<notin> set (map fst (columns df))"
  shows "columns (binned df) ! i = columns df ! i \<and> series (binned df) i = series df i \<and>
     i < length (columns (binned df))"
proof (cases "index_of ''price'' (map fst (columns df))")
  case None
  then show ?thesis
    using assms(2) by (simp add: binned_def)
next
  case (Some p)
  let ?vs = "map (cut_value price_bins price_labels) (series df p)"
  have "''price'' \<in> set (map fst (columns df))"
    using Some index_of_None [of "''price''" "map fst (columns df)"] by auto
  with assms(3) have "fst (columns df ! i) \<noteq> ''price_category''"
    by blast
  then have ne: "i \<noteq> slot_of ''price_category'' df"
    using assms(2) by (simp add: slot_of_label)
  have len: "length ?vs = nrows df"
    by (simp add: series_length)
  show ?thesis
    using set_column_other [OF assms(1) len assms(2) ne, of Category] assms(2)
    by (simp add: binned_def Some set_column_length)
qed

lemma add_processed_at_other:
  assumes "wf_df df" and "i < length (columns df)" and "fst (columns df ! i) \<noteq> ''processed_at''"
  shows "columns (add_processed_at now df) ! i = columns df ! i \<and>
     series (add_processed_at now df) i = series df i \<and>
     i < length (columns (add_processed_at now df))"
proof -
  have ne: "i \<noteq> slot_of ''processed_at'' df"
    using assms(2,3) by (simp add: slot_of_label)
  have len: "length (replicate (nrows df) (Time now)) = nrows df"
    by simp
  show ?thesis
    using set_column_other [OF assms(1) len assms(2) ne, of Datetime] assms(2)
    by (simp add: add_processed_at_def set_column_length)
qed

lemma cut_value_price:
  "cut_value price_bins price_labels (Num x) =
     (if x \<le> 0 then NA
      else if x \<le> 50 then Str ''Low''
      else if x \<le> 200 then Str ''Medium''
      else if x \<le> 500 then Str ''High''
      else Str ''Premium'')"
  by (simp add: cut_value_def searchsorted_left_def price_bins_def price_labels_def)

lemma cut_value_NA: "cut_value bins labels NA = NA"
  by (simp add: cut_value_def)

text \<open>
  C1 (as amended). On a well-formed frame with a numeric column \<open>price\<close>, enrichment
  succeeds and leaves a categorical column \<open>price_category\<close> (where a column of that label
  stood, or else as a new column) that holds, row by row, the bin of the price. The bins
  are open on the left and closed on the right: a price in (0, 50] is \<open>Low\<close>, in (50, 200]
  \<open>Medium\<close>, in (200, 500] \<open>High\<close>, above 500 \<open>Premium\<close>; a price of 0 or below and a
  missing price have no category. So 50 is \<open>Low\<close>, 500 is \<open>High\<close>, and 0 is missing.
\<close>

theorem price_category_bins:
  assumes "wf_df df" and "index_of ''price'' (map fst (columns df)) = Some p"
    and "snd (columns df ! p) = Numeric"
  shows "snd (transform_data P now df) = None \<and>
     index_of ''price_category'' (map fst (columns (fst (transform_data P now df)))) =
       Some (slot_of ''price_category'' df) \<and>
     snd (columns (fst (transform_data P now df)) ! slot_of ''price_category'' df) = Category \<and>
     series (fst (transform_data P now df)) (slot_of ''price_category'' df) =
       map (cut_value price_bins price_labels) (series df p) \<and>
     cut_value price_bins price_labels NA = NA \<and>
     (\<forall>x. cut_value price_bins price_labels (Num x) =
        (if x \<le> 0 then NA
         else if x \<le> 50 then Str ''Low''
         else if x \<le> 200 then Str ''Medium''
         else if x \<le> 500 then Str ''High''
         else Str ''Premium''))"
proof -
  let ?vs = "map (cut_value price_bins price_labels) (series df p)"
  let ?q = "slot_of ''price_category'' df"
  let ?d1 = "binned df"
  let ?d2 = "add_processed_at now ?d1"
  have ok: "price_ok df"
    using assms(2,3) by (simp add: price_ok_def)
  have b: "?d1 = set_column ''price_category'' Category ?vs df"
    using assms(2) by (simp add: binned_def)
  have len: "length ?vs = nrows df"
    by (simp add: series_length)
  note s = set_column_slot [OF assms(1) len, of "''price_category''" Category, folded b]
  have wf1: "wf_df ?d1"
    using assms(1) by (rule binned_wf)
  have lab: "fst (columns ?d1 ! ?q) \<noteq> ''processed_at''"
    using s(2) by simp
  note o = add_processed_at_other [OF wf1 s(4) lab, of now]
  have ix: "index_of ''price_category'' (map fst (columns ?d2)) = Some ?q"
    using s(1) by (simp add: add_processed_at_def set_column_index_other)
  note f = transform_data_frame [OF assms(1) ok, of P now]
  have "series (fst (transform_data P now df)) ?q = series ?d2 ?q"
    using f o s(2) by simp
  then have "series (fst (transform_data P now df)) ?q = ?vs"
    using o s(3) by simp
  moreover have "snd (columns (fst (transform_data P now df)) ! ?q) = Category"
    using f o s(2) by simp
  moreover have "index_of ''price_category'' (map fst (columns (fst (transform_data P now df)))) = Some ?q"
    using f ix by simp
  ultimately show ?thesis
    using f cut_value_price cut_value_NA by simp
qed



theorem price_category_bins_witness:
  "wf_df price_example \<and>
   index_of ''price'' (map fst (columns price_example)) = Some 0 \<and>
   snd (columns price_example ! 0) = Numeric \<and>
   slot_of ''price_category'' price_example = 2 \<and>
   series price_example 0 = [Num 50, Num 0, Num 500, Num (- 5), Num 600] \<and>
   series (fst (transform_data reference_platform 7 price_example)) 2 =
     [Str ''Low'', NA, Str ''High'', NA, Str ''Premium''] \<and>
   snd (columns (fst (transform_data reference_platform 7 price_example)) ! 2) = Category"
proof -
  have w: "wf_df price_example"
    by code_simp
  have p: "index_of ''price'' (map fst (columns price_example)) = Some 0"
    by code_simp
  have t: "snd (columns price_example ! 0) = Numeric"
    by code_simp
  have q: "slot_of ''price_category'' price_example = 2"
    by code_simp
  have v: "series price_example 0 = [Num 50, Num 0, Num 500, Num (- 5), Num 600]"
    "series (fst (transform_data reference_platform 7 price_example)) 2 =
       [Str ''Low'', NA, Str ''High'', NA, Str ''Premium'']"
    by code_simp+
  have "snd (columns (fst (transform_data reference_platform 7 price_example)) ! 2) = Category"
    using price_category_bins [OF w p t, of reference_platform 7] by (simp add: q)
  with w p t q v show ?thesis
    by blast
qed

text \<open>
  C1 as stated, with bins closed on the left, fails on \<open>price_example\<close>: the prices
  50, 0 and 500 get \<open>Low\<close>, no category and \<open>High\<close>, where the claim says
  \<open>Medium\<close>, \<open>Low\<close> and \<open>Premium\<close>.
\<close>

theorem left_closed_bins_counterexample:
  "series price_example 0 = [Num 50, Num 0, Num 500, Num (- 5), Num 600] \<and>
   series (fst (transform_data reference_platform 7 price_example)) 2 =
     [Str ''Low'', NA, Str ''High'', NA, Str ''Premium''] \<and>
   map left_closed_category (series price_example 0) =
     [Str ''Medium'', Str ''Low'', Str ''Premium'', NA, Str ''Premium''] \<and>
   series (fst (transform_data reference_platform 7 price_example)) 2 \<noteq>
     map left_closed_category (series price_example 0)"
  by code_simp



subsection \<open>Text columns\<close>


lemma title_from_length: "length (title_from b s) = length s"
  by (induction s arbitrary: b) simp_all

lemma title_from_nth:
  "k < length s \<Longrightarrow>
   title_from b s ! k =
     (if (if k = 0 then b else is_cased (s ! (k - 1))) then to_lower (s ! k) else to_upper (s ! k))"
proof (induction s arbitrary: b k)
  case Nil
  then show ?case by simp
next
  case (Cons c cs)
  show ?case
  proof (cases k)
    case 0
    then show ?thesis by simp
  next
    case (Suc n)
    with Cons.prems have "n < length cs" by simp
    from Cons.IH [OF this, of "is_cased c"] Suc show ?thesis
      by (cases n) simp_all
  qed
qed

lemma title_nth:
  "k < length s \<Longrightarrow>
   title s ! k =
     (if 0 < k \<and> is_cased (s ! (k - 1)) then to_lower (s ! k) else to_upper (s ! k))"
  by (simp add: title_def title_from_nth)

lemma rev_dropWhile_takeWhile:
  "xs = rev (dropWhile P (rev xs)) @ rev (takeWhile P (rev xs))"
  by (metis rev_append rev_rev_ident takeWhile_dropWhile_id)

lemma strip_decomposition:
  "\<exists>a b. s = a @ strip s @ b \<and> (\<forall>c \<in> set a. is_space c) \<and> (\<forall>c \<in> set b. is_space c)"
proof -
  define t where "t = dropWhile is_space s"
  define a where "a = takeWhile is_space s"
  define b where "b = rev (takeWhile is_space (rev t))"
  have t: "t = strip s @ b"
    unfolding strip_def b_def t_def by (rule rev_dropWhile_takeWhile)
  have "s = a @ t"
    by (simp add: a_def t_def)
  with t have "s = a @ strip s @ b"
    by simp
  moreover have "\<forall>c \<in> set a. is_space c"
    unfolding a_def by (auto dest: set_takeWhileD)
  moreover have "\<forall>c \<in> set b. is_space c"
    unfolding b_def by (auto dest: set_takeWhileD)
  ultimately show ?thesis
    by blast
qed

lemma strip_ends:
  assumes "strip s \<noteq> []"
  shows "\<not> is_space (hd (strip s)) \<and> \<not> is_space (last (strip s))"
proof -
  define t where "t = dropWhile is_space s"
  have st: "strip s = rev (dropWhile is_space (rev t))"
    by (simp add: strip_def t_def)
  have ne: "dropWhile is_space (rev t) \<noteq> []"
    using assms st by simp
  have "last (strip s) = hd (dropWhile is_space (rev t))"
    using ne by (simp add: st last_rev)
  then have l: "\<not> is_space (last (strip s))"
    using ne hd_dropWhile by metis
  have "t = strip s @ rev (takeWhile is_space (rev t))"
    unfolding st by (rule rev_dropWhile_takeWhile)
  then have "hd t = hd (strip s)" and "t \<noteq> []"
    using assms by (metis hd_append2, metis append_is_Nil_conv)
  then have "\<not> is_space (hd (strip s))"
    unfolding t_def using hd_dropWhile by metis
  with l show ?thesis
    by simp
qed

lemma normalize_cell_simps:
  "normalize_cell P NA = NA" "normalize_cell P (Str s) = Str (str_title P (str_strip P s))"
  by (simp_all add: normalize_cell_def)

lemma ascii_reference: "ascii_text reference_platform"
  by (simp add: ascii_text_def reference_platform_def)

lemma is_ascii_strip: "is_ascii s \<Longrightarrow> is_ascii (strip s)"
  by (auto simp: is_ascii_def strip_def list_all_iff dest!: set_dropWhileD)

lemma normalize_cell_ascii:
  assumes "ascii_text P" and "is_ascii s"
  shows "normalize_cell P (Str s) = Str (title (strip s))"
proof -
  have "str_strip P s = strip s"
    using assms by (simp add: ascii_text_def)
  moreover have "str_title P (strip s) = title (strip s)"
    using assms(1) is_ascii_strip [OF assms(2)] by (simp add: ascii_text_def)
  ultimately show ?thesis
    by (simp add: normalize_cell_def)
qed

lemma text_column_normalized:
  assumes "wf_df df" and "price_ok df" and "i < length (columns df)"
    and "snd (columns df ! i) = Object"
    and "fst (columns df ! i) \<noteq> ''processed_at''"
    and "fst (columns df ! i) = ''price_category'' \<longrightarrow> ''price'' \<notin> set (map fst (columns df))"
  shows "snd (transform_data P now df) = None \<and>
     columns (fst (transform_data P now df)) ! i = columns df ! i \<and>
     series (fst (transform_data P now df)) i = map (normalize_cell P) (series df i)"
proof -
  let ?d1 = "binned df"
  let ?d2 = "add_processed_at now ?d1"
  note b = binned_other [OF assms(1,3,6)]
  have wf1: "wf_df ?d1"
    using assms(1) by (rule binned_wf)
  have lab: "fst (columns ?d1 ! i) \<noteq> ''processed_at''"
    using b assms(5) by simp
  have i1: "i < length (columns ?d1)"
    using b by simp
  note o = add_processed_at_other [OF wf1 i1 lab, of now]
  note f = transform_data_frame [OF assms(1,2), of P now]
  have c: "columns (fst (transform_data P now df)) ! i = columns df ! i"
    using f o b by simp
  have "series (fst (transform_data P now df)) i = map (normalize_cell P) (series ?d2 i)"
    using f o b assms(4) by simp
  then have s: "series (fst (transform_data P now df)) i = map (normalize_cell P) (series df i)"
    using o b by simp
  show ?thesis
    using f c s by blast
qed

lemma price_example_names:
  "wf_df price_example" "price_ok price_example" "1 < length (columns price_example)"
  "snd (columns price_example ! 1) = Object"
  "fst (columns price_example ! 1) \<noteq> ''processed_at''"
  "fst (columns price_example ! 1) = ''price_category'' \<longrightarrow>
     ''price'' \<notin> set (map fst (columns price_example))"
  "series price_example 1 =
     [Str ''  john smith  '', Str ''Unknown'', Str ''mary-ann'', NA, Str ''b'']"
  "is_ascii ''  john smith  ''" "is_ascii ''Unknown''" "is_ascii ''mary-ann''" "is_ascii ''b''"
  "title (strip ''  john smith  '') = ''John Smith''" "title (strip ''Unknown'') = ''Unknown''"
  "title (strip ''mary-ann'') = ''Mary-Ann''" "title (strip ''b'') = ''B''"
  by code_simp+

lemma names_on_every_machine:
  assumes "ascii_text P"
  shows "series (fst (transform_data P now price_example)) 1 =
     [Str ''John Smith'', Str ''Unknown'', Str ''Mary-Ann'', NA, Str ''B'']"
proof -
  have s: "series (fst (transform_data P now price_example)) 1 =
      map (normalize_cell P) (series price_example 1)"
    using text_column_normalized [OF price_example_names(1-6), of P now] by blast
  show ?thesis
    unfolding s price_example_names(7)
    by (simp add: normalize_cell_ascii [OF assms] price_example_names(8-15)
        normalize_cell_simps(1))
qed

text \<open>
  C8 (as amended). On a well-formed frame whose \<open>price\<close> column, if there is one, is
  numeric, enrichment succeeds, and a text column (other than one labelled
  \<open>processed_at\<close>, or labelled \<open>price_category\<close> when \<open>price\<close> is present: those are
  replaced by the derived columns) keeps its place and label and has every value
  stripped by \<^verbatim>\<open>str.strip\<close> and then title-cased by \<^verbatim>\<open>str.title\<close>; a missing marker
  stays. On every platform whose two functions do on ASCII text what Python's do, and for
  every ASCII text: stripping removes exactly the leading and the trailing whitespace;
  title-casing keeps the length and decides each character by the character before it:
  after a letter it is lowercased, otherwise it is uppercased, so a word starts after any
  character that is not a letter, not only after whitespace.
\<close>

theorem text_columns_stripped_and_titled:
  assumes "wf_df df" and "price_ok df" and "i < length (columns df)"
    and "snd (columns df ! i) = Object"
    and "fst (columns df ! i) \<noteq> ''processed_at''"
    and "fst (columns df ! i) = ''price_category'' \<longrightarrow> ''price'' \<notin> set (map fst (columns df))"
  shows "snd (transform_data P now df) = None \<and>
     columns (fst (transform_data P now df)) ! i = columns df ! i \<and>
     series (fst (transform_data P now df)) i = map (normalize_cell P) (series df i) \<and>
     normalize_cell P NA = NA \<and>
     (\<forall>s. normalize_cell P (Str s) = Str (str_title P (str_strip P s))) \<and>
     (ascii_text P \<longrightarrow>
        (\<forall>s. is_ascii s \<longrightarrow>
           normalize_cell P (Str s) = Str (title (strip s)) \<and>
           (\<exists>a b. s = a @ strip s @ b \<and> (\<forall>c \<in> set a. is_space c) \<and> (\<forall>c \<in> set b. is_space c)) \<and>
           (strip s \<noteq> [] \<longrightarrow> \<not> is_space (hd (strip s)) \<and> \<not> is_space (last (strip s))) \<and>
           length (title s) = length s \<and>
           (\<forall>k<length s. title s ! k =
              (if 0 < k \<and> is_cased (s ! (k - 1)) then to_lower (s ! k) else to_upper (s ! k)))) \<and>
        normalize_cell P (Str ''  john smith  '') = Str ''John Smith'' \<and>
        normalize_cell P (Str ''Unknown'') = Str ''Unknown'' \<and>
        normalize_cell P (Str ''mary-ann'') = Str ''Mary-Ann'')"
proof -
  have t: "ascii_text P \<longrightarrow>
        (\<forall>s. is_ascii s \<longrightarrow>
           normalize_cell P (Str s) = Str (title (strip s)) \<and>
           (\<exists>a b. s = a @ strip s @ b \<and> (\<forall>c \<in> set a. is_space c) \<and> (\<forall>c \<in> set b. is_space c)) \<and>
           (strip s \<noteq> [] \<longrightarrow> \<not> is_space (hd (strip s)) \<and> \<not> is_space (last (strip s))) \<and>
           length (title s) = length s \<and>
           (\<forall>k<length s. title s ! k =
              (if 0 < k \<and> is_cased (s ! (k - 1)) then to_lower (s ! k) else to_upper (s ! k)))) \<and>
        normalize_cell P (Str ''  john smith  '') = Str ''John Smith'' \<and>
        normalize_cell P (Str ''Unknown'') = Str ''Unknown'' \<and>
        normalize_cell P (Str ''mary-ann'') = Str ''Mary-Ann''"
  proof
    assume P: "ascii_text P"
    have "\<forall>s. is_ascii s \<longrightarrow>
           normalize_cell P (Str s) = Str (title (strip s)) \<and>
           (\<exists>a b. s = a @ strip s @ b \<and> (\<forall>c \<in> set a. is_space c) \<and> (\<forall>c \<in> set b. is_space c)) \<and>
           (strip s \<noteq> [] \<longrightarrow> \<not> is_space (hd (strip s)) \<and> \<not> is_space (last (strip s))) \<and>
           length (title s) = length s \<and>
           (\<forall>k<length s. title s ! k =
              (if 0 < k \<and> is_cased (s ! (k - 1)) then to_lower (s ! k) else to_upper (s ! k)))"
      using strip_decomposition strip_ends title_nth normalize_cell_ascii [OF P]
      by (simp add: title_def title_from_length)
    moreover have "normalize_cell P (Str ''  john smith  '') = Str ''John Smith''"
      "normalize_cell P (Str ''Unknown'') = Str ''Unknown''"
      "normalize_cell P (Str ''mary-ann'') = Str ''Mary-Ann''"
      by (simp_all only: normalize_cell_ascii [OF P] price_example_names)
    ultimately show "(\<forall>s. is_ascii s \<longrightarrow>
           normalize_cell P (Str s) = Str (title (strip s)) \<and>
           (\<exists>a b. s = a @ strip s @ b \<and> (\<forall>c \<in> set a. is_space c) \<and> (\<forall>c \<in> set b. is_space c)) \<and>
           (strip s \<noteq> [] \<longrightarrow> \<not> is_space (hd (strip s)) \<and> \<not> is_space (last (strip s))) \<and>
           length (title s) = length s \<and>
           (\<forall>k<length s. title s ! k =
              (if 0 < k \<and> is_cased (s ! (k - 1)) then to_lower (s ! k) else to_upper (s ! k)))) \<and>
        normalize_cell P (Str ''  john smith  '') = Str ''John Smith'' \<and>
        normalize_cell P (Str ''Unknown'') = Str ''Unknown'' \<and>
        normalize_cell P (Str ''mary-ann'') = Str ''Mary-Ann''"
      by blast
  qed
  show ?thesis
    using text_column_normalized [OF assms, of P now] t normalize_cell_simps [of P] by blast
qed

theorem text_columns_stripped_and_titled_witness:
  "wf_df price_example \<and> price_ok price_example \<and>
   columns price_example ! 1 = (''name'', Object) \<and>
   ascii_text reference_platform \<and>
   series price_example 1 =
     [Str ''  john smith  '', Str ''Unknown'', Str ''mary-ann'', NA, Str ''b''] \<and>
   series (fst (transform_data reference_platform 7 price_example)) 1 =
     [Str ''John Smith'', Str ''Unknown'', Str ''Mary-Ann'', NA, Str ''B''] \<and>
   series (fst (transform_data reference_platform 7 price_example)) 1 =
     map (normalize_cell reference_platform) (series price_example 1) \<and>
   is_ascii ''mary-ann'' \<and>
   normalize_cell reference_platform (Str ''mary-ann'') = Str ''Mary-Ann''"
proof -
  have v: "columns price_example ! 1 = (''name'', Object)"
    "series (fst (transform_data reference_platform 7 price_example)) 1 =
       [Str ''John Smith'', Str ''Unknown'', Str ''Mary-Ann'', NA, Str ''B'']"
    by code_simp+
  note t = text_columns_stripped_and_titled [OF price_example_names(1-6), of reference_platform 7]
  have "series (fst (transform_data reference_platform 7 price_example)) 1 =
      map (normalize_cell reference_platform) (series price_example 1)"
    using t by blast
  moreover have "normalize_cell reference_platform (Str ''mary-ann'') = Str ''Mary-Ann''"
    using t ascii_reference by blast
  ultimately show ?thesis
    using v ascii_reference price_example_names(1,2,7,10) by blast
qed

text \<open>
  C8 as stated, with title-casing per whitespace-separated token, fails on the third row
  of \<open>price_example\<close>: \<^verbatim>\<open>mary-ann\<close> becomes \<^verbatim>\<open>Mary-Ann\<close>, not \<^verbatim>\<open>Mary-ann\<close>.
\<close>

theorem token_title_counterexample:
  "series price_example 1 ! 2 = Str ''mary-ann'' \<and>
   series (fst (transform_data reference_platform 7 price_example)) 1 ! 2 = Str ''Mary-Ann'' \<and>
   token_title (strip ''mary-ann'') = ''Mary-ann'' \<and>
   series (fst (transform_data reference_platform 7 price_example)) 1 ! 2 \<noteq>
     Str (token_title (strip ''mary-ann''))"
  by code_simp

section \<open>Properties of the metrics log\<close>

lemma log_metrics_simps:
  "log_metrics m None Absent = (Inr (), Stored [m])"
  "log_metrics m None Unparsable = (Inr (), Stored [m])"
  "log_metrics m None (Stored xs) = (Inr (), Stored (xs @ [m]))"
  "log_metrics m write_failure (Undecodable message) =
     (Inl (UnicodeDecodeError message), Undecodable message)"
  "log_metrics m write_failure (NotArray type_name) =
     (Inl (AttributeError (no_append type_name)), NotArray type_name)"
  by (simp_all add: log_metrics_def load_existing_def append_record_def)

lemma log_metrics_ok:
  assumes "recorder_ok write_failure f"
  shows "log_metrics m write_failure f = (Inr (), Stored (records f @ [m]))"
  using assms
  by (cases f)
     (simp_all add: recorder_ok_def readable_def records_def log_metrics_def load_existing_def
        append_record_def)


lemma log_metrics_fails:
  assumes "\<not> recorder_ok write_failure f"
  shows "\<exists>e. log_metrics m write_failure f = (Inl e, f)"
  using assms
  by (cases f; cases write_failure)
     (simp_all add: recorder_ok_def readable_def log_metrics_def load_existing_def
        append_record_def)

lemma fold_log_metrics_stored:
  "fold (\<lambda>m f. snd (log_metrics m None f)) ms (Stored xs) = Stored (xs @ ms)"
  by (induction ms arbitrary: xs) (simp_all add: log_metrics_simps)

lemma fold_log_metrics_absent:
  "fold (\<lambda>m f. snd (log_metrics m None f)) ms Absent = (if ms = [] then Absent else Stored ms)"
  by (cases ms) (simp_all add: log_metrics_simps fold_log_metrics_stored)

lemma records_simps:
  "records Absent = []" "records Unparsable = []" "records (Stored xs) = xs"
  by (simp_all add: records_def)

text \<open>
  C7. A call of the recorder reads the log, appends its record and writes the whole
  array. It takes a missing file for the empty array, and also a file on which loading
  raises one of the three exceptions that it catches. So calls with the records \<open>ms\<close>,
  in that order, on a log that is absent at first and can be written leave a log that
  holds exactly \<open>ms\<close>: as many records as calls, in call order (with no call the log is
  still absent). But not every file that cannot be parsed is taken for the empty array:
  on a file whose bytes are not text in the encoding, the \<^verbatim>\<open>UnicodeDecodeError\<close> of
  \<^verbatim>\<open>json.load\<close> is none of the exceptions caught, and on a file that holds a JSON value
  other than an array the call of \<^verbatim>\<open>append\<close> raises \<^verbatim>\<open>AttributeError\<close>; in both cases
  the error leaves the recorder and the file stays as it was.
\<close>

theorem log_metrics_misses_decoding_errors:
  "log_metrics m write_failure (Undecodable message) =
     (Inl (UnicodeDecodeError message), Undecodable message) \<and>
   log_metrics m write_failure (NotArray type_name) =
     (Inl (AttributeError (no_append type_name)), NotArray type_name) \<and>
   log_metrics earlier_record None (metrics_log undecodable_world) =
     (Inl (UnicodeDecodeError invalid_start_byte), Undecodable invalid_start_byte) \<and>
   str_of_exn (AttributeError (no_append ''dict'')) =
     [CHR 0x27] @ ''dict'' @ [CHR 0x27] @ '' object has no attribute '' @
     [CHR 0x27] @ ''append'' @ [CHR 0x27] \<and>
   log_metrics m None Absent = (Inr (), Stored [m]) \<and>
   log_metrics m None Unparsable = (Inr (), Stored [m]) \<and>
   log_metrics m None (Stored xs) = (Inr (), Stored (xs @ [m])) \<and>
   fold (\<lambda>m f. snd (log_metrics m None f)) ms Absent = (if ms = [] then Absent else Stored ms) \<and>
   records (fold (\<lambda>m f. snd (log_metrics m None f)) ms Absent) = ms \<and>
   length (records (fold (\<lambda>m f. snd (log_metrics m None f)) ms Absent)) = length ms"
proof -
  have u: "log_metrics earlier_record None (metrics_log undecodable_world) =
     (Inl (UnicodeDecodeError invalid_start_byte), Undecodable invalid_start_byte)"
    by (simp add: undecodable_world_def log_metrics_simps)
  have n: "str_of_exn (AttributeError (no_append ''dict'')) =
     [CHR 0x27] @ ''dict'' @ [CHR 0x27] @ '' object has no attribute '' @
     [CHR 0x27] @ ''append'' @ [CHR 0x27]"
    by (simp add: no_append_def)
  have r: "records (fold (\<lambda>m f. snd (log_metrics m None f)) ms Absent) = ms"
    by (simp add: fold_log_metrics_absent records_simps)
  show ?thesis
    using log_metrics_simps [of m] u n r fold_log_metrics_absent [of ms]
    by (simp only: simp_thms)
qed

section \<open>Properties of collection\<close>


lemma arrived_simps:
  "arrived [] = []" "arrived (Inl e # sources) = arrived sources"
  "arrived (Inr d # sources) = d # arrived sources"
  by (simp_all add: arrived_def List.map_filter_simps)

lemma fold_guarded_extract:
  "fold guarded_extract sources acc = acc @ arrived sources"
proof (induction sources arbitrary: acc)
  case Nil
  show ?case by (simp add: arrived_simps)
next
  case (Cons outcome sources)
  have "fold guarded_extract (outcome # sources) acc =
      guarded_extract outcome acc @ arrived sources"
    using Cons.IH by simp
  moreover have "guarded_extract outcome acc @ arrived sources = acc @ arrived (outcome # sources)"
    by (cases outcome) (simp_all add: guarded_extract_def arrived_simps)
  ultimately show ?case
    by simp
qed

lemma collect_arrived:
  "collect sources =
     (if arrived sources = [] then Inl NoDataAvailable else Inr (pd_concat (arrived sources)))"
  by (simp add: collect_def fold_guarded_extract)

lemma arrived_empty: "arrived sources = [] \<longleftrightarrow> (\<forall>outcome \<in> set sources. isl outcome)"
proof (induction sources)
  case Nil
  show ?case by (simp add: arrived_simps)
next
  case (Cons outcome sources)
  then show ?case
    by (cases outcome) (simp_all add: arrived_simps)
qed

lemma pd_concat_rows:
  "rows (pd_concat dfs) =
     concat (map (\<lambda>df. map (reindex_row (concat_columns dfs) df) (rows df)) dfs)"
  by (simp add: pd_concat_def Let_def)

lemma pd_concat_columns: "columns (pd_concat dfs) = concat_columns dfs"
  by (simp add: pd_concat_def Let_def)

lemma pd_concat_nrows: "nrows (pd_concat dfs) = sum_list (map nrows dfs)"
proof -
  have e: "map nrows dfs = map (\<lambda>df. length (rows df)) dfs"
    by (simp add: nrows_def)
  have "nrows (pd_concat dfs) = sum_list (map (\<lambda>df. length (rows df)) dfs)"
    unfolding nrows_def by (simp add: pd_concat_rows length_concat o_def)
  then show ?thesis
    by (simp only: e)
qed

lemma concat_columns_labels:
  "map fst (concat_columns dfs) =
     rev (remdups (rev (concat (map (\<lambda>df. map fst (columns df)) dfs))))"
  by (simp add: concat_columns_def o_def)

lemma reindex_row_nth:
  assumes "k < length cols"
  shows "reindex_row cols df r ! k =
     (case index_of (fst (cols ! k)) (map fst (columns df)) of Some i \<Rightarrow> r ! i | None \<Rightarrow> NA)"
  using assms by (simp add: reindex_row_def)

lemma reindex_row_keeps:
  assumes "df \<in> set dfs" and "wf_df df" and "i < length (columns df)"
  shows "\<exists>k<length (concat_columns dfs).
     fst (concat_columns dfs ! k) = fst (columns df ! i) \<and>
     reindex_row (concat_columns dfs) df r ! k = r ! i"
proof -
  let ?l = "fst (columns df ! i)"
  have "?l \<in> set (map fst (columns df))"
    using assms(3) by simp
  then have "?l \<in> set (map fst (concat_columns dfs))"
    using assms(1) by (auto simp: concat_columns_labels)
  then obtain k where k: "k < length (concat_columns dfs)" "map fst (concat_columns dfs) ! k = ?l"
    by (metis in_set_conv_nth length_map)
  have "distinct (map fst (columns df))"
    using assms(2) by (simp add: wf_df_def)
  then have "index_of ?l (map fst (columns df)) = Some i"
    using index_of_distinct [of "map fst (columns df)" i] assms(3) by simp
  then have "reindex_row (concat_columns dfs) df r ! k = r ! i"
    using k by (simp add: reindex_row_nth)
  with k show ?thesis
    by auto
qed

lemma reindex_row_fills:
  assumes "k < length cols" and "fst (cols ! k) \<notin> set (map fst (columns df))"
  shows "reindex_row cols df r ! k = NA"
  using assms index_of_None [of "fst (cols ! k)" "map fst (columns df)"]
  by (simp add: reindex_row_nth)

lemma run_stages_no_source:
  assumes "collect [csv_source env, api_source env] = Inl e"
  shows "run_stages env w = (Inl e, w)"
  using assms by (simp add: run_stages_def)

lemma world_metrics_log_same: "w\<lparr>metrics_log := metrics_log w\<rparr> = w"
  by simp

lemma handle_failure_ok:
  assumes "recorder_ok (handler_log_failure env) (metrics_log w)"
  shows "handle_failure env t1 e w =
     (Inl e, w\<lparr>metrics_log := Stored (records (metrics_log w) @
        [\<lparr>execution_time = 0, rows_processed = 0, start_time = clock_start env,
          end_time = t1, status = ''failed'', error = Some (str_of_exn e)\<rparr>])\<rparr>)"
  by (simp add: handle_failure_def Let_def log_metrics_ok [OF assms])

lemma handle_failure_fails:
  assumes "\<not> recorder_ok (handler_log_failure env) (metrics_log w)"
  shows "\<exists>e'. handle_failure env t1 e w = (Inl e', w)"
proof -
  obtain e' where "log_metrics \<lparr>execution_time = 0, rows_processed = 0,
      start_time = clock_start env, end_time = t1, status = ''failed'',
      error = Some (str_of_exn e)\<rparr> (handler_log_failure env) (metrics_log w) =
      (Inl e', metrics_log w)"
    using log_metrics_fails [OF assms] by blast
  then show ?thesis
    by (simp add: handle_failure_def Let_def)
qed


lemma handle_failure_raises:
  "isl (fst (handle_failure env t1 e w)) \<and>
   snd (handle_failure env t1 e w) =
     w\<lparr>metrics_log := metrics_log (snd (handle_failure env t1 e w))\<rparr>"
proof (cases "recorder_ok (handler_log_failure env) (metrics_log w)")
  case True
  show ?thesis
    by (simp add: handle_failure_ok [OF True])
next
  case False
  from handle_failure_fails [OF False, of t1 e] obtain e' where
    "handle_failure env t1 e w = (Inl e', w)"
    by blast
  then show ?thesis
    by simp
qed

lemma run_pipeline_failure:
  assumes "run_stages env w = (Inl e, w')"
  shows "run_pipeline env w = handle_failure env (clock_end env) e w'"
  using assms by (simp add: run_pipeline_def Let_def)

lemma run_pipeline_success:
  assumes "run_stages env w = (Inr t, w')"
    and "recorder_ok (success_log_failure env) (metrics_log w')"
  shows "run_pipeline env w =
     (Inr (), w'\<lparr>metrics_log := Stored (records (metrics_log w') @
        [\<lparr>execution_time = real_of_int (clock_end env - clock_start env) / 1000000,
          rows_processed = nrows t, start_time = clock_start env,
          end_time = clock_end env, status = ''success'', error = None\<rparr>])\<rparr>)"
  using assms(1) by (simp add: run_pipeline_def Let_def log_metrics_ok [OF assms(2)])

lemma run_pipeline_unlogged:
  assumes "run_stages env w = (Inr t, w')"
    and "\<not> recorder_ok (success_log_failure env) (metrics_log w')"
  shows "\<exists>e. run_pipeline env w = handle_failure env (clock_retry env) e w' \<and>
     log_metrics
       \<lparr>execution_time = real_of_int (clock_end env - clock_start env) / 1000000,
        rows_processed = nrows t, start_time = clock_start env,
        end_time = clock_end env, status = ''success'', error = None\<rparr>
       (success_log_failure env) (metrics_log w') = (Inl e, metrics_log w')"
proof -
  obtain e where l: "log_metrics
       \<lparr>execution_time = real_of_int (clock_end env - clock_start env) / 1000000,
        rows_processed = nrows t, start_time = clock_start env,
        end_time = clock_end env, status = ''success'', error = None\<rparr>
       (success_log_failure env) (metrics_log w') = (Inl e, metrics_log w')"
    using log_metrics_fails [OF assms(2)] by blast
  have "run_pipeline env w = handle_failure env (clock_retry env) e w'"
    using assms(1) l by (simp add: run_pipeline_def Let_def)
  with l show ?thesis
    by blast
qed

lemma run_pipeline_no_source:
  assumes "arrived [csv_source env, api_source env] = []"
  shows "run_stages env w = (Inl NoDataAvailable, w)"
    and "run_pipeline env w = handle_failure env (clock_end env) NoDataAvailable w"
proof -
  have "collect [csv_source env, api_source env] = Inl NoDataAvailable"
    using assms by (simp add: collect_arrived)
  then show s: "run_stages env w = (Inl NoDataAvailable, w)"
    by (rule run_stages_no_source)
  show "run_pipeline env w = handle_failure env (clock_end env) NoDataAvailable w"
    using run_pipeline_failure [OF s] .
qed

text \<open>
  C5. Collection runs the guarded step over the sources in order: a failed source adds
  nothing and its error goes no further, a frame that arrives is appended. When no frame
  arrived (every source failed, or there was no source) collection fails with the
  exception \<open>NoDataAvailable\<close>, whose text is \<^verbatim>\<open>No data sources available\<close>, and the
  run ends there: the stages change nothing, the run raises and leaves every sink as it
  was, and when the recorder's call succeeds the failure is recorded and the exception
  of the run is \<open>NoDataAvailable\<close>. Otherwise the result is the concatenation of the
  frames that arrived: its rows are their rows, frame after frame in source order, each
  row keeping every cell under its label.
\<close>

theorem collection_tolerates_failed_sources:
  "collect sources =
     (if arrived sources = [] then Inl NoDataAvailable else Inr (pd_concat (arrived sources))) \<and>
   arrived [] = [] \<and>
   arrived (Inl e # sources) = arrived sources \<and>
   arrived (Inr d # sources) = d # arrived sources \<and>
   (arrived sources = [] \<longleftrightarrow> (\<forall>outcome \<in> set sources. isl outcome)) \<and>
   rows (pd_concat dfs) =
     concat (map (\<lambda>df. map (reindex_row (concat_columns dfs) df) (rows df)) dfs) \<and>
   nrows (pd_concat dfs) = sum_list (map nrows dfs) \<and>
   (\<forall>df \<in> set dfs. wf_df df \<longrightarrow>
      (\<forall>r. \<forall>i<length (columns df). \<exists>k<length (concat_columns dfs).
         fst (concat_columns dfs ! k) = fst (columns df ! i) \<and>
         reindex_row (concat_columns dfs) df r ! k = r ! i)) \<and>
   str_of_exn NoDataAvailable = ''No data sources available'' \<and>
   (arrived [csv_source env, api_source env] = [] \<longrightarrow>
      run_stages env w = (Inl NoDataAvailable, w) \<and>
      isl (fst (run_pipeline env w)) \<and>
      snd (run_pipeline env w) = w\<lparr>metrics_log := metrics_log (snd (run_pipeline env w))\<rparr>) \<and>
   (arrived [csv_source env, api_source env] = [] \<and>
    recorder_ok (handler_log_failure env) (metrics_log w) \<longrightarrow>
      run_pipeline env w =
        (Inl NoDataAvailable,
         w\<lparr>metrics_log := Stored (records (metrics_log w) @
           [\<lparr>execution_time = 0, rows_processed = 0, start_time = clock_start env,
             end_time = clock_end env, status = ''failed'',
             error = Some ''No data sources available''\<rparr>])\<rparr>))"
proof -
  have k: "\<forall>df \<in> set dfs. wf_df df \<longrightarrow>
      (\<forall>r. \<forall>i<length (columns df). \<exists>k<length (concat_columns dfs).
         fst (concat_columns dfs ! k) = fst (columns df ! i) \<and>
         reindex_row (concat_columns dfs) df r ! k = r ! i)"
    using reindex_row_keeps by blast
  have n: "str_of_exn NoDataAvailable = ''No data sources available''"
    by (simp add: NoDataAvailable_def)
  have a: "arrived [csv_source env, api_source env] = [] \<longrightarrow>
      run_stages env w = (Inl NoDataAvailable, w) \<and>
      isl (fst (run_pipeline env w)) \<and>
      snd (run_pipeline env w) = w\<lparr>metrics_log := metrics_log (snd (run_pipeline env w))\<rparr>"
  proof
    assume h: "arrived [csv_source env, api_source env] = []"
    show "run_stages env w = (Inl NoDataAvailable, w) \<and>
      isl (fst (run_pipeline env w)) \<and>
      snd (run_pipeline env w) = w\<lparr>metrics_log := metrics_log (snd (run_pipeline env w))\<rparr>"
      unfolding run_pipeline_no_source(2) [OF h]
      using run_pipeline_no_source(1) [OF h] handle_failure_raises by blast
  qed
  have b: "arrived [csv_source env, api_source env] = [] \<and>
    recorder_ok (handler_log_failure env) (metrics_log w) \<longrightarrow>
      run_pipeline env w =
        (Inl NoDataAvailable,
         w\<lparr>metrics_log := Stored (records (metrics_log w) @
           [\<lparr>execution_time = 0, rows_processed = 0, start_time = clock_start env,
             end_time = clock_end env, status = ''failed'',
             error = Some ''No data sources available''\<rparr>])\<rparr>)"
  proof
    assume h: "arrived [csv_source env, api_source env] = [] \<and>
      recorder_ok (handler_log_failure env) (metrics_log w)"
    then have r: "run_pipeline env w = handle_failure env (clock_end env) NoDataAvailable w"
      using run_pipeline_no_source(2) by blast
    show "run_pipeline env w =
        (Inl NoDataAvailable,
         w\<lparr>metrics_log := Stored (records (metrics_log w) @
           [\<lparr>execution_time = 0, rows_processed = 0, start_time = clock_start env,
             end_time = clock_end env, status = ''failed'',
             error = Some ''No data sources available''\<rparr>])\<rparr>)"
      unfolding r using h by (simp add: handle_failure_ok n)
  qed
  show ?thesis
    using collect_arrived [of sources] arrived_simps(1) arrived_simps(2) [of e sources]
      arrived_simps(3) [of d sources] arrived_empty [of sources]
      pd_concat_rows [of dfs] pd_concat_nrows [of dfs] k n a b
    by blast
qed

theorem collection_tolerates_failed_sources_witness:
  "wf_df names_example \<and> wf_df price_example \<and>
   collect [Inl (Exception ''no such file''), Inr price_example] = Inr (pd_concat [price_example]) \<and>
   rows (pd_concat [price_example]) = rows price_example \<and>
   collect [Inl (Exception ''no such file''), Inl (Exception ''connection refused'')] =
     Inl NoDataAvailable \<and>
   collect [] = Inl NoDataAvailable \<and>
   nrows (pd_concat [names_example, price_example]) = 8 \<and>
   rows (pd_concat [names_example, price_example]) =
     [[Num 1, Num 10, Str '' a ''], [Num 1, Num 10, Str '' a ''], [Num 2, Num 600, Str ''b''],
      [NA, Num 50, Str ''  john smith  ''], [NA, Num 0, Str ''Unknown''],
      [NA, Num 500, Str ''mary-ann''], [NA, Num (- 5), NA], [NA, Num 600, Str ''b'']] \<and>
   arrived [csv_source no_source_env, api_source no_source_env] = [] \<and>
   recorder_ok (handler_log_failure no_source_env) (metrics_log logged_world) \<and>
   run_stages no_source_env logged_world = (Inl NoDataAvailable, logged_world) \<and>
   fst (run_pipeline no_source_env logged_world) = Inl NoDataAvailable \<and>
   snd (run_pipeline no_source_env logged_world) =
     logged_world\<lparr>metrics_log := Stored
       [earlier_record,
        \<lparr>execution_time = 0, rows_processed = 0, start_time = 1000000, end_time = 3500000,
         status = ''failed'', error = Some ''No data sources available''\<rparr>]\<rparr>"
proof -
  have w: "wf_df names_example" "wf_df price_example"
    by code_simp+
  have a: "arrived [Inl (Exception ''no such file''), Inr price_example] = [price_example]"
    "arrived [Inl (Exception ''no such file''), Inl (Exception ''connection refused'')] = []"
    "arrived [csv_source no_source_env, api_source no_source_env] = []"
    by (simp_all add: arrived_def List.map_filter_simps no_source_env_def good_env_def)
  have ok: "recorder_ok (handler_log_failure no_source_env) (metrics_log logged_world)"
    by code_simp
  have v: "rows (pd_concat [price_example]) = rows price_example"
    "rows (pd_concat [names_example, price_example]) =
     [[Num 1, Num 10, Str '' a ''], [Num 1, Num 10, Str '' a ''], [Num 2, Num 600, Str ''b''],
      [NA, Num 50, Str ''  john smith  ''], [NA, Num 0, Str ''Unknown''],
      [NA, Num 500, Str ''mary-ann''], [NA, Num (- 5), NA], [NA, Num 600, Str ''b'']]"
    by code_simp+
  have c1: "collect [Inl (Exception ''no such file''), Inr price_example] =
      Inr (pd_concat [price_example])"
    using collection_tolerates_failed_sources
      [of "[Inl (Exception ''no such file''), Inr price_example]"] a(1)
    by simp
  have c2: "collect [Inl (Exception ''no such file''), Inl (Exception ''connection refused'')] =
      Inl NoDataAvailable"
    using collection_tolerates_failed_sources
      [of "[Inl (Exception ''no such file''), Inl (Exception ''connection refused'')]"] a(2)
    by simp
  have c3: "collect [] = Inl NoDataAvailable"
    using collection_tolerates_failed_sources [of "[]"] by simp
  have n: "nrows (pd_concat [names_example, price_example]) = 8"
    using collection_tolerates_failed_sources [of _ _ _ "[names_example, price_example]"]
    by (simp add: nrows_def names_example_def price_example_def)
  note t = collection_tolerates_failed_sources [of _ _ _ _ no_source_env logged_world]
  have s: "run_stages no_source_env logged_world = (Inl NoDataAvailable, logged_world)"
    using t a(3) by blast
  have r: "run_pipeline no_source_env logged_world =
      (Inl NoDataAvailable,
       logged_world\<lparr>metrics_log := Stored (records (metrics_log logged_world) @
         [\<lparr>execution_time = 0, rows_processed = 0, start_time = clock_start no_source_env,
           end_time = clock_end no_source_env, status = ''failed'',
           error = Some ''No data sources available''\<rparr>])\<rparr>)"
    using t a(3) ok by blast
  have r1: "fst (run_pipeline no_source_env logged_world) = Inl NoDataAvailable"
    unfolding r by simp
  have r2: "snd (run_pipeline no_source_env logged_world) =
     logged_world\<lparr>metrics_log := Stored
       [earlier_record,
        \<lparr>execution_time = 0, rows_processed = 0, start_time = 1000000, end_time = 3500000,
         status = ''failed'', error = Some ''No data sources available''\<rparr>]\<rparr>"
    unfolding r
    by (simp add: records_def logged_world_def empty_world_def no_source_env_def good_env_def)
  show ?thesis
    using w v c1 c2 c3 n a(3) ok s r1 r2 by blast
qed

section \<open>Properties of a run\<close>



lemma run_stages_metrics_log: "metrics_log (snd (run_stages env w)) = metrics_log w"
  by (auto simp: run_stages_def Let_def load_to_database_def load_to_csv_def load_to_json_def
      split: sum.splits prod.splits option.splits)

lemma run_pipeline_record:
  assumes "recorder_succeeds env w"
  shows "\<exists>m. run_pipeline env w =
         (map_sum id (\<lambda>t. ()) (fst (run_stages env w)),
          (snd (run_stages env w))\<lparr>metrics_log := Stored (records (metrics_log w) @ [m])\<rparr>) \<and>
       start_time m = clock_start env \<and> end_time m = clock_end env \<and>
       (case fst (run_stages env w) of
          Inl e \<Rightarrow>
            status m = ''failed'' \<and>
            rows_processed m = 0 \<and> error m = Some (str_of_exn e) \<and> execution_time m = 0
        | Inr t \<Rightarrow>
            status m = ''success'' \<and>
            rows_processed m = nrows t \<and> error m = None \<and>
            execution_time m = real_of_int (clock_end env - clock_start env) / 1000000)"
proof (cases "run_stages env w")
  case (Pair outcome w')
  have ml: "metrics_log w' = metrics_log w"
    using run_stages_metrics_log [of env w] Pair by simp
  show ?thesis
  proof (cases outcome)
    case (Inl e)
    with Pair have s: "run_stages env w = (Inl e, w')" by simp
    have ok: "recorder_ok (handler_log_failure env) (metrics_log w')"
      using assms s ml by (simp add: recorder_succeeds_def)
    show ?thesis
      unfolding run_pipeline_failure [OF s] handle_failure_ok [OF ok] s ml
      by (intro exI [of _ "\<lparr>execution_time = 0, rows_processed = 0, start_time = clock_start env,
          end_time = clock_end env, status = ''failed'', error = Some (str_of_exn e)\<rparr>"]) simp
  next
    case (Inr t)
    with Pair have s: "run_stages env w = (Inr t, w')" by simp
    have ok: "recorder_ok (success_log_failure env) (metrics_log w')"
      using assms s ml by (simp add: recorder_succeeds_def)
    show ?thesis
      unfolding run_pipeline_success [OF s ok] s ml
      by (intro exI [of _ "\<lparr>execution_time = real_of_int (clock_end env - clock_start env) / 1000000,
          rows_processed = nrows t, start_time = clock_start env,
          end_time = clock_end env, status = ''success'', error = None\<rparr>"]) simp
  qed
qed


lemma run_pipeline_any_record:
  "metrics_log (snd (run_pipeline env w)) = metrics_log w \<or>
   (\<exists>m. metrics_log (snd (run_pipeline env w)) = Stored (records (metrics_log w) @ [m]) \<and>
        start_time m = clock_start env \<and>
        (case fst (run_pipeline env w) of
           Inl e \<Rightarrow> execution_time m = 0 \<and> status m = ''failed''
         | Inr u \<Rightarrow>
             execution_time m = real_of_int (clock_end env - clock_start env) / 1000000 \<and>
             status m = ''success''))"
proof (cases "run_stages env w")
  case (Pair outcome w')
  have ml: "metrics_log w' = metrics_log w"
    using run_stages_metrics_log [of env w] Pair by simp
  have hf: "metrics_log (snd (handle_failure env t1 e w')) = metrics_log w \<or>
      (\<exists>m. metrics_log (snd (handle_failure env t1 e w')) = Stored (records (metrics_log w) @ [m]) \<and>
        start_time m = clock_start env \<and>
        (case fst (handle_failure env t1 e w') of
           Inl e \<Rightarrow> execution_time m = 0 \<and> status m = ''failed''
         | Inr u \<Rightarrow>
             execution_time m = real_of_int (clock_end env - clock_start env) / 1000000 \<and>
             status m = ''success''))" for t1 e
  proof (cases "recorder_ok (handler_log_failure env) (metrics_log w')")
    case True
    show ?thesis
      unfolding handle_failure_ok [OF True] ml
      by (intro disjI2 exI [of _ "\<lparr>execution_time = 0, rows_processed = 0,
          start_time = clock_start env, end_time = t1, status = ''failed'',
          error = Some (str_of_exn e)\<rparr>"]) simp
  next
    case False
    from handle_failure_fails [OF False, of t1 e] obtain e' where
      "handle_failure env t1 e w' = (Inl e', w')"
      by blast
    then show ?thesis
      by (simp add: ml)
  qed
  show ?thesis
  proof (cases outcome)
    case (Inl e)
    with Pair have s: "run_stages env w = (Inl e, w')" by simp
    show ?thesis
      unfolding run_pipeline_failure [OF s] by (rule hf)
  next
    case (Inr t)
    with Pair have s: "run_stages env w = (Inr t, w')" by simp
    show ?thesis
    proof (cases "recorder_ok (success_log_failure env) (metrics_log w')")
      case True
      show ?thesis
        unfolding run_pipeline_success [OF s True] ml
        by (intro disjI2 exI [of _ "\<lparr>execution_time =
              real_of_int (clock_end env - clock_start env) / 1000000,
            rows_processed = nrows t, start_time = clock_start env,
            end_time = clock_end env, status = ''success'', error = None\<rparr>"]) simp
    next
      case False
      from run_pipeline_unlogged [OF s False] obtain e where
        "run_pipeline env w = handle_failure env (clock_retry env) e w'"
        by blast
      then show ?thesis
        using hf by simp
    qed
  qed
qed




text \<open>
  C10. The record that a run appends when a stage failed has the execution time 0,
  whatever the clock read at the start and at the end; the record of a run that succeeds
  has the seconds between the two readings. This holds of the record of every run whose
  call of the recorder succeeds, and more generally of every record that a run appends:
  a run that raises appends nothing or a record with the execution time 0, a run that
  returns appends a record with the elapsed seconds.
\<close>

theorem failed_run_records_zero_duration:
  "(recorder_succeeds env w \<longrightarrow>
      (\<exists>m. records (metrics_log (snd (run_pipeline env w))) = records (metrics_log w) @ [m] \<and>
           start_time m = clock_start env \<and> end_time m = clock_end env \<and>
           (case fst (run_pipeline env w) of
              Inl e \<Rightarrow> execution_time m = 0 \<and> status m = ''failed''
            | Inr u \<Rightarrow>
                execution_time m = real_of_int (clock_end env - clock_start env) / 1000000 \<and>
                status m = ''success''))) \<and>
   (metrics_log (snd (run_pipeline env w)) = metrics_log w \<or>
    (\<exists>m. metrics_log (snd (run_pipeline env w)) = Stored (records (metrics_log w) @ [m]) \<and>
         start_time m = clock_start env \<and>
         (case fst (run_pipeline env w) of
            Inl e \<Rightarrow> execution_time m = 0 \<and> status m = ''failed''
          | Inr u \<Rightarrow>
              execution_time m = real_of_int (clock_end env - clock_start env) / 1000000 \<and>
              status m = ''success'')))"
proof -
  have a: "recorder_succeeds env w \<longrightarrow>
      (\<exists>m. records (metrics_log (snd (run_pipeline env w))) = records (metrics_log w) @ [m] \<and>
           start_time m = clock_start env \<and> end_time m = clock_end env \<and>
           (case fst (run_pipeline env w) of
              Inl e \<Rightarrow> execution_time m = 0 \<and> status m = ''failed''
            | Inr u \<Rightarrow>
                execution_time m = real_of_int (clock_end env - clock_start env) / 1000000 \<and>
                status m = ''success''))"
  proof
    assume "recorder_succeeds env w"
    from run_pipeline_record [OF this] obtain m where
      r: "run_pipeline env w =
         (map_sum id (\<lambda>t. ()) (fst (run_stages env w)),
          (snd (run_stages env w))\<lparr>metrics_log := Stored (records (metrics_log w) @ [m])\<rparr>)"
      and o: "start_time m = clock_start env" "end_time m = clock_end env"
        "case fst (run_stages env w) of
          Inl e \<Rightarrow>
            status m = ''failed'' \<and>
            rows_processed m = 0 \<and> error m = Some (str_of_exn e) \<and> execution_time m = 0
        | Inr t \<Rightarrow>
            status m = ''success'' \<and>
            rows_processed m = nrows t \<and> error m = None \<and>
            execution_time m = real_of_int (clock_end env - clock_start env) / 1000000"
      by blast
    show "\<exists>m. records (metrics_log (snd (run_pipeline env w))) = records (metrics_log w) @ [m] \<and>
           start_time m = clock_start env \<and> end_time m = clock_end env \<and>
           (case fst (run_pipeline env w) of
              Inl e \<Rightarrow> execution_time m = 0 \<and> status m = ''failed''
            | Inr u \<Rightarrow>
                execution_time m = real_of_int (clock_end env - clock_start env) / 1000000 \<and>
                status m = ''success'')"
      using o unfolding r
      by (intro exI [of _ m]) (simp add: records_simps split: sum.splits)
  qed
  show ?thesis
    using a run_pipeline_any_record [of env w] by blast
qed

theorem failed_run_records_zero_duration_witness:
  "clock_end csv_sink_env - clock_start csv_sink_env = 2500000 \<and>
   recorder_succeeds csv_sink_env logged_world \<and>
   fst (run_pipeline csv_sink_env logged_world) = Inl (Exception ''disk full'') \<and>
   map execution_time (records (metrics_log (snd (run_pipeline csv_sink_env logged_world)))) =
     [2, 0] \<and>
   recorder_succeeds good_env logged_world \<and>
   fst (run_pipeline good_env logged_world) = Inr () \<and>
   map execution_time (records (metrics_log (snd (run_pipeline good_env logged_world)))) =
     [2, 5 / 2]"
proof -
  have c: "clock_end csv_sink_env - clock_start csv_sink_env = 2500000"
    by (simp add: csv_sink_env_def good_env_def)
  have ok: "recorder_succeeds csv_sink_env logged_world" "recorder_succeeds good_env logged_world"
    by code_simp+
  have f: "fst (run_pipeline csv_sink_env logged_world) = Inl (Exception ''disk full'')"
    "fst (run_pipeline good_env logged_world) = Inr ()"
    by code_simp+
  have e: "map execution_time (records (metrics_log logged_world)) = [2]"
    by (simp add: logged_world_def empty_world_def records_def earlier_record_def)
  have g: "real_of_int (clock_end good_env - clock_start good_env) / 1000000 = 5 / 2"
    by (simp add: good_env_def)
  have a: "map execution_time
      (records (metrics_log (snd (run_pipeline csv_sink_env logged_world)))) = [2, 0]"
    using failed_run_records_zero_duration [of csv_sink_env logged_world] ok(1) f(1) e by auto
  have b: "map execution_time
      (records (metrics_log (snd (run_pipeline good_env logged_world)))) = [2, 5 / 2]"
    using failed_run_records_zero_duration [of good_env logged_world] ok(2) f(2) e g by auto
  show ?thesis
    using c ok f a b by blast
qed

section \<open>Properties of the frames as objects\<close>


lemma alloc_simps: "alloc d h = (length h, h @ [d])"
  by (simp add: alloc_def)

lemma outlier_loop_obj:
  assumes "df < length h"
  shows "\<exists>r' h'. fold (\<lambda>col (df, h). alloc (outlier_pass P col (h ! df)) h) cols (df, h) = (r', h') \<and>
     take (length h) h' = h \<and> r' < length h' \<and> df \<le> r' \<and>
     h' ! r' = remove_outliers P cols (h ! df)"
  using assms
proof (induction cols arbitrary: df h)
  case Nil
  then show ?case by (simp add: remove_outliers_def)
next
  case (Cons col cols)
  let ?h1 = "h @ [outlier_pass P col (h ! df)]"
  have l: "length h < length ?h1"
    by simp
  from Cons.IH [OF l] obtain r' h' where
    f: "fold (\<lambda>col (df, h). alloc (outlier_pass P col (h ! df)) h) cols (length h, ?h1) = (r', h')"
    and t: "take (length ?h1) h' = ?h1" and r: "r' < length h'" and g: "length h \<le> r'"
    and v: "h' ! r' = remove_outliers P cols (?h1 ! length h)"
    by blast
  have "take (length h) (take (length ?h1) h') = take (length h) ?h1"
    using t by simp
  then have t': "take (length h) h' = h"
    by (simp add: take_take min_def)
  have "fold (\<lambda>col (df, h). alloc (outlier_pass P col (h ! df)) h) (col # cols) (df, h) = (r', h')"
    using f by (simp add: alloc_simps)
  moreover have "h' ! r' = remove_outliers P (col # cols) (h ! df)"
    using v by (simp add: remove_outliers_def)
  ultimately show ?case
    using t' r g Cons.prems by auto
qed

lemma clean_data_obj_fresh:
  assumes "r < length h"
  shows "\<exists>r' h'. clean_data_obj P r h = (r', h') \<and>
     take (length h) h' = h \<and> length h \<le> r' \<and> r' < length h' \<and>
     h' ! r' = clean_data P (h ! r)"
proof -
  let ?d = "drop_duplicates (h ! r)"
  let ?h1 = "h @ [impute ?d]"
  have cd: "clean_data_obj P r h =
      fold (\<lambda>col (df, h). alloc (outlier_pass P col (h ! df)) h) (select_dtypes Numeric ?d)
        (length h, ?h1)"
    by (simp add: clean_data_obj_def alloc_simps Let_def)
  have l: "length h < length ?h1"
    by simp
  from outlier_loop_obj [OF l, of P "select_dtypes Numeric ?d"] obtain r' h' where
    f: "fold (\<lambda>col (df, h). alloc (outlier_pass P col (h ! df)) h) (select_dtypes Numeric ?d)
          (length h, ?h1) = (r', h')"
    and t: "take (length ?h1) h' = ?h1" and r: "r' < length h'" and g: "length h \<le> r'"
    and v: "h' ! r' = remove_outliers P (select_dtypes Numeric ?d) (?h1 ! length h)"
    by blast
  have "take (length h) (take (length ?h1) h') = take (length h) ?h1"
    using t by simp
  then have t': "take (length h) h' = h"
    by (simp add: take_take min_def)
  have "select_dtypes Numeric ?d = select_dtypes Numeric (h ! r)"
    by (rule select_dtypes_cong) (rule drop_duplicates_columns)
  then have "h' ! r' = clean_data P (h ! r)"
    using v by (simp add: clean_data_steps)
  with cd f t' r g show ?thesis
    by simp
qed

lemma transform_data_obj_in_place:
  "snd (transform_data_obj P now r h) = h[r := fst (transform_data P now (h ! r))] \<and>
   fst (transform_data_obj P now r h) =
     (case snd (transform_data P now (h ! r)) of None \<Rightarrow> Inr r | Some e \<Rightarrow> Inl e)"
  by (cases "transform_data P now (h ! r)") (auto simp: transform_data_obj_def split: option.splits)

lemma binned_no_processed_at:
  assumes "''processed_at'' \<notin> set (map fst (columns df))"
  shows "''processed_at'' \<notin> set (map fst (columns (binned df)))"
proof -
  have "index_of ''processed_at'' (map fst (columns (binned df))) =
      index_of ''processed_at'' (map fst (columns df))"
    by (simp add: binned_def set_column_index_other split: option.splits)
  then show ?thesis
    using assms index_of_None [of "''processed_at''" "map fst (columns df)"]
      index_of_None [of "''processed_at''" "map fst (columns (binned df))"]
    by simp
qed

lemma binned_length: "length (columns df) \<le> length (columns (binned df))"
  by (simp add: binned_def set_column_length split: option.splits)

lemma transform_data_adds_column:
  assumes "wf_df df" and "price_ok df" and "''processed_at'' \<notin> set (map fst (columns df))"
  shows "length (columns df) < length (columns (fst (transform_data P now df)))"
proof -
  have "length (columns (add_processed_at now (binned df))) = length (columns (binned df)) + 1"
    using binned_no_processed_at [OF assms(3)]
    by (simp add: add_processed_at_def set_column_length)
  then show ?thesis
    using transform_data_frame [OF assms(1,2), of P now] binned_length [of df] by simp
qed


text \<open>
  C9 (as amended). Cleaning leaves every frame of the store as it was, the frame it was
  given included, and returns a new frame, which holds the cleaned table. Enrichment
  returns the frame it was given and changes it in place: after the call that frame holds
  what the assignments of enrichment left in it, also when a later statement of
  enrichment raised. On a well-formed frame without a \<open>processed_at\<close> column (whose
  \<open>price\<close> column, if any, is numeric) the call succeeds and the caller's frame is not the
  frame it was before.
\<close>

theorem clean_copies_and_enrich_mutates:
  assumes "r < length h"
  shows "(\<exists>r' h'. clean_data_obj P r h = (r', h') \<and>
            take (length h) h' = h \<and> h' ! r = h ! r \<and>
            length h \<le> r' \<and> r' < length h' \<and> h' ! r' = clean_data P (h ! r)) \<and>
     snd (transform_data_obj P now r h) = h[r := fst (transform_data P now (h ! r))] \<and>
     fst (transform_data_obj P now r h) =
       (case snd (transform_data P now (h ! r)) of None \<Rightarrow> Inr r | Some e \<Rightarrow> Inl e) \<and>
     (wf_df (h ! r) \<and> price_ok (h ! r) \<and> ''processed_at'' \<notin> set (map fst (columns (h ! r))) \<longrightarrow>
        fst (transform_data_obj P now r h) = Inr r \<and>
        snd (transform_data_obj P now r h) ! r \<noteq> h ! r)"
proof -
  from clean_data_obj_fresh [OF assms] obtain r' h' where
    c: "clean_data_obj P r h = (r', h')" "take (length h) h' = h" "length h \<le> r'"
      "r' < length h'" "h' ! r' = clean_data P (h ! r)"
    by blast
  have "take (length h) h' ! r = h' ! r"
    using assms by simp
  then have "h' ! r = h ! r"
    using c(2) by simp
  with c have a: "\<exists>r' h'. clean_data_obj P r h = (r', h') \<and>
            take (length h) h' = h \<and> h' ! r = h ! r \<and>
            length h \<le> r' \<and> r' < length h' \<and> h' ! r' = clean_data P (h ! r)"
    by blast
  note t = transform_data_obj_in_place [of P now r h]
  have b: "wf_df (h ! r) \<and> price_ok (h ! r) \<and> ''processed_at'' \<notin> set (map fst (columns (h ! r))) \<longrightarrow>
        fst (transform_data_obj P now r h) = Inr r \<and>
        snd (transform_data_obj P now r h) ! r \<noteq> h ! r"
  proof
    assume p: "wf_df (h ! r) \<and> price_ok (h ! r) \<and>
      ''processed_at'' \<notin> set (map fst (columns (h ! r)))"
    then have ok: "snd (transform_data P now (h ! r)) = None"
      using transform_data_frame [of "h ! r" P now] by blast
    have "length (columns (h ! r)) < length (columns (fst (transform_data P now (h ! r))))"
      using p transform_data_adds_column by blast
    then have "fst (transform_data P now (h ! r)) \<noteq> h ! r"
      by auto
    then show "fst (transform_data_obj P now r h) = Inr r \<and>
        snd (transform_data_obj P now r h) ! r \<noteq> h ! r"
      using t ok assms by simp
  qed
  show ?thesis
    using a b t by blast
qed

theorem clean_copies_and_enrich_mutates_witness:
  "wf_df price_example \<and> price_ok price_example \<and>
   ''processed_at'' \<notin> set (map fst (columns price_example)) \<and>
   fst (clean_data_obj reference_platform 0 [price_example]) = 2 \<and>
   snd (clean_data_obj reference_platform 0 [price_example]) ! 0 = price_example \<and>
   rows (snd (clean_data_obj reference_platform 0 [price_example]) ! 2) =
     [[Num 50, Str ''  john smith  ''], [Num 0, Str ''Unknown''],
      [Num 500, Str ''mary-ann''], [Num (- 5), Str ''Unknown''], [Num 600, Str ''b'']] \<and>
   fst (transform_data_obj reference_platform 7 0 [price_example]) = Inr 0 \<and>
   snd (transform_data_obj reference_platform 7 0 [price_example]) ! 0 \<noteq> [price_example] ! 0 \<and>
   fst (transform_data_obj reference_platform 7 0 [codes_example]) =
     Inl (AttributeError ''Can only use .str accessor with string values!'') \<and>
   snd (transform_data_obj reference_platform 7 0 [codes_example]) =
     [\<lparr>columns = [(''code'', Object), (''processed_at'', Datetime)],
       rows = [[Num 1, Time 7], [Num 2, Time 7]]\<rparr>]"
proof -
  have w: "wf_df price_example" "price_ok price_example"
    "''processed_at'' \<notin> set (map fst (columns price_example))"
    by code_simp+
  have r: "0 < length [price_example]"
    by simp
  have n: "[price_example] ! 0 = price_example"
    by simp
  have v: "fst (clean_data_obj reference_platform 0 [price_example]) = 2"
    "rows (snd (clean_data_obj reference_platform 0 [price_example]) ! 2) =
     [[Num 50, Str ''  john smith  ''], [Num 0, Str ''Unknown''],
      [Num 500, Str ''mary-ann''], [Num (- 5), Str ''Unknown''], [Num 600, Str ''b'']]"
    by code_simp+
  have e: "transform_data reference_platform 7 codes_example =
      (\<lparr>columns = [(''code'', Object), (''processed_at'', Datetime)],
        rows = [[Num 1, Time 7], [Num 2, Time 7]]\<rparr>,
       Some (AttributeError ''Can only use .str accessor with string values!''))"
    by code_simp
  note t = clean_copies_and_enrich_mutates [OF r, of reference_platform 7]
  have a: "snd (clean_data_obj reference_platform 0 [price_example]) ! 0 = price_example"
    using t by (auto simp: n)
  have b: "fst (transform_data_obj reference_platform 7 0 [price_example]) = Inr 0 \<and>
      snd (transform_data_obj reference_platform 7 0 [price_example]) ! 0 \<noteq> [price_example] ! 0"
  proof -
    have "wf_df ([price_example] ! 0) \<and> price_ok ([price_example] ! 0) \<and>
        ''processed_at'' \<notin> set (map fst (columns ([price_example] ! 0)))"
      using w by simp
    with t show ?thesis
      by blast
  qed
  have r': "0 < length [codes_example]"
    by simp
  have c: "fst (transform_data_obj reference_platform 7 0 [codes_example]) =
     Inl (AttributeError ''Can only use .str accessor with string values!'') \<and>
   snd (transform_data_obj reference_platform 7 0 [codes_example]) =
     [\<lparr>columns = [(''code'', Object), (''processed_at'', Datetime)],
       rows = [[Num 1, Time 7], [Num 2, Time 7]]\<rparr>]"
    using clean_copies_and_enrich_mutates [OF r', of reference_platform 7] by (simp add: e)
  show ?thesis
    using w v a b c by blast
qed

text \<open>
  C9 as stated fails for enrichment: the frame handed to it is the frame it returns, and
  after the call it holds two more columns and the normalised names.
\<close>

theorem enrich_in_place_counterexample:
  "fst (transform_data_obj reference_platform 7 0 [price_example]) = Inr 0 \<and>
   columns ([price_example] ! 0) = [(''price'', Numeric), (''name'', Object)] \<and>
   columns (snd (transform_data_obj reference_platform 7 0 [price_example]) ! 0) =
     [(''price'', Numeric), (''name'', Object), (''price_category'', Category),
      (''processed_at'', Datetime)] \<and>
   rows (snd (transform_data_obj reference_platform 7 0 [price_example]) ! 0) \<noteq> rows ([price_example] ! 0)"
  by code_simp

end
